theory Spec2Isabelle
  imports Main "HOL-Library.Sublist"
begin

section \<open>Values, errors and entities\<close>

text \<open>
  The values that travel through \<^verbatim>\<open>teams/app.py\<close>: a parsed JSON document (what
  \<^verbatim>\<open>request.json\<close> hands to \<^verbatim>\<open>add_post_json\<close>) and the documents the projection
  functions build before \<^verbatim>\<open>json.dumps\<close>. A Python dict is the list of its items in
  insertion order; a key is read with \<open>map_of\<close>. JSON numbers are represented by
  integers: a number is never subscripted or iterated successfully by this code, whatever
  its value.
\<close>

datatype json =
    JNull
  | JBool bool
  | JInt int
  | JString string
  | JList "json list"
  | JDict "(string \<times> json) list"

text \<open>
  The exceptions the code can raise by itself: \<^verbatim>\<open>d['k']\<close> on a dict without the key
  (KeyError), subscripting or iterating a value that does not support it (TypeError), and
  reading \<^verbatim>\<open>.name\<close> of \<^verbatim>\<open>None\<close> (AttributeError).
\<close>

datatype error = KeyError string | TypeError | AttributeError

text \<open>
  The three mapped classes. A row carries the columns of the class; the relationships
  \<^verbatim>\<open>Team.members\<close> and \<^verbatim>\<open>User.company\<close> are the joins over the foreign keys
  (\<open>members\<close> and \<open>company\<close> below). Column values are the Python values of the
  attributes; both foreign keys are nullable, as the columns are declared.
\<close>

record team_row =
  t_id :: nat
  t_name :: json

record user_row =
  u_id :: nat
  u_name :: json
  u_email :: json
  u_team_id :: "nat option"
  u_company_id :: "nat option"

record company_row =
  c_id :: nat
  c_name :: json

text \<open>
  The persisted state: the three tables, each in the order in which the store yields its
  rows (SQLite yields them in rowid order, which is insertion order here).
\<close>

record store =
  teams_tbl :: "team_row list"
  users_tbl :: "user_row list"
  companies_tbl :: "company_row list"

text \<open>\<^verbatim>\<open>team.members\<close>: the users whose \<^verbatim>\<open>team_id\<close> is the team's id.\<close>

definition members :: "store \<Rightarrow> team_row \<Rightarrow> user_row list" where
  "members db team = filter (\<lambda>u. u_team_id u = Some (t_id team)) (users_tbl db)"

text \<open>
  \<^verbatim>\<open>user.company\<close>: the company row the user's \<^verbatim>\<open>company_id\<close> points to, or
  \<^verbatim>\<open>None\<close> when the key is NULL or no such row exists.
\<close>

definition company :: "store \<Rightarrow> user_row \<Rightarrow> company_row option" where
  "company db u =
     (case u_company_id u of
        None \<Rightarrow> None
      | Some cid \<Rightarrow> find (\<lambda>c. c_id c = cid) (companies_tbl db))"

section \<open>Query layer\<close>

text \<open>\<^verbatim>\<open>get_all_teams\<close>: \<^verbatim>\<open>Team.query.all()\<close>.\<close>

definition get_all_teams :: "store \<Rightarrow> team_row list" where
  "get_all_teams db = teams_tbl db"

text \<open>
  \<^verbatim>\<open>get_team_by_name\<close>: \<^verbatim>\<open>Team.query.filter_by(name=name)\<close>, the rows whose name
  column equals the given string.
\<close>

definition get_team_by_name :: "store \<Rightarrow> string \<Rightarrow> team_row list" where
  "get_team_by_name db name = filter (\<lambda>t. t_name t = JString name) (teams_tbl db)"

text \<open>
  \<^verbatim>\<open>team not in filtered_teams\<close> compares Team objects. The class defines no
  \<^verbatim>\<open>__eq__\<close>, so the comparison is object identity, and the session holds one object per
  primary key: two loaded teams are the same object exactly when their ids are equal.
\<close>

definition team_in :: "team_row \<Rightarrow> team_row list \<Rightarrow> bool" where
  "team_in team ts = (t_id team \<in> set (map t_id ts))"

text \<open>
  The inner loop of \<^verbatim>\<open>get_team_by_company\<close> over \<^verbatim>\<open>team.members\<close>, with
  \<^verbatim>\<open>filtered_teams\<close> as the accumulator. \<^verbatim>\<open>member.company.name\<close> is evaluated for
  every member (the left operand of \<^verbatim>\<open>and\<close>), and raises when the member has no
  company.
\<close>

fun scan_members ::
  "store \<Rightarrow> string \<Rightarrow> team_row \<Rightarrow> user_row list \<Rightarrow> team_row list \<Rightarrow> error + team_row list"
where
  "scan_members db companyname team [] filtered_teams = Inr filtered_teams"
| "scan_members db companyname team (member # rest) filtered_teams =
     (case company db member of
        None \<Rightarrow> Inl AttributeError
      | Some c \<Rightarrow>
          scan_members db companyname team rest
            (if c_name c = JString companyname \<and> \<not> team_in team filtered_teams
             then filtered_teams @ [team] else filtered_teams))"

text \<open>The outer loop over \<^verbatim>\<open>teams\<close>.\<close>

fun scan_teams ::
  "store \<Rightarrow> string \<Rightarrow> team_row list \<Rightarrow> team_row list \<Rightarrow> error + team_row list"
where
  "scan_teams db companyname [] filtered_teams = Inr filtered_teams"
| "scan_teams db companyname (team # rest) filtered_teams =
     (case scan_members db companyname team (members db team) filtered_teams of
        Inl e \<Rightarrow> Inl e
      | Inr filtered_teams' \<Rightarrow> scan_teams db companyname rest filtered_teams')"

definition get_team_by_company :: "store \<Rightarrow> string \<Rightarrow> error + team_row list" where
  "get_team_by_company db companyname = scan_teams db companyname (get_all_teams db) []"

section \<open>Projection layer\<close>

text \<open>
  \<^verbatim>\<open>json.dumps\<close> is \<^verbatim>\<open>ujson.dumps\<close>, a library function: the projection functions
  take it as the parameter \<open>dumps\<close>. A projection function called with
  \<^verbatim>\<open>dump=True\<close> returns a Python string, which is the value \<open>JString\<close> of the text:
  embedded into a parent document, it would be serialized again as a JSON string.
\<close>

text \<open>\<^verbatim>\<open>d[k] = v\<close> on a dict: an existing key keeps its place, a new key goes last.\<close>

fun dict_set :: "(string \<times> json) list \<Rightarrow> string \<Rightarrow> json \<Rightarrow> (string \<times> json) list" where
  "dict_set [] k v = [(k, v)]"
| "dict_set ((k', v') # d) k v =
     (if k' = k then (k, v) # d else (k', v') # dict_set d k v)"

text \<open>
  \<^verbatim>\<open>company_to_json\<close>. The argument is \<^verbatim>\<open>user.company\<close>, which may be
  \<^verbatim>\<open>None\<close>; then \<^verbatim>\<open>company.name\<close> raises.
\<close>

definition company_to_json :: "(json \<Rightarrow> string) \<Rightarrow> company_row option \<Rightarrow> bool \<Rightarrow> error + json" where
  "company_to_json dumps company_opt dump =
     (case company_opt of
        None \<Rightarrow> Inl AttributeError
      | Some c \<Rightarrow>
          (let company_dict = [];
               company_dict = dict_set company_dict ''name'' (c_name c);
               company_dict = dict_set company_dict ''id'' (JInt (int (c_id c)))
           in Inr (if dump then JString (dumps (JDict company_dict)) else JDict company_dict)))"

text \<open>The loop of \<^verbatim>\<open>users_to_json\<close>, with \<^verbatim>\<open>user_json\<close> as the accumulator.\<close>

fun users_loop ::
  "(json \<Rightarrow> string) \<Rightarrow> store \<Rightarrow> user_row list \<Rightarrow> json list \<Rightarrow> error + json list"
where
  "users_loop dumps db [] user_json = Inr user_json"
| "users_loop dumps db (user # rest) user_json =
     (case company_to_json dumps (company db user) False of
        Inl e \<Rightarrow> Inl e
      | Inr company_doc \<Rightarrow>
          (let user_dict = [];
               user_dict = dict_set user_dict ''id'' (JInt (int (u_id user)));
               user_dict = dict_set user_dict ''name'' (u_name user);
               user_dict = dict_set user_dict ''company'' company_doc;
               user_dict = dict_set user_dict ''email'' (u_email user)
           in users_loop dumps db rest (user_json @ [JDict user_dict])))"

definition users_to_json ::
  "(json \<Rightarrow> string) \<Rightarrow> store \<Rightarrow> user_row list \<Rightarrow> bool \<Rightarrow> error + json"
where
  "users_to_json dumps db users dump =
     (case users_loop dumps db users [] of
        Inl e \<Rightarrow> Inl e
      | Inr user_json \<Rightarrow>
          Inr (if dump then JString (dumps (JList user_json)) else JList user_json))"

text \<open>The loop of \<^verbatim>\<open>teams_to_json\<close>, with \<^verbatim>\<open>team_json\<close> as the accumulator.\<close>

fun teams_loop ::
  "(json \<Rightarrow> string) \<Rightarrow> store \<Rightarrow> team_row list \<Rightarrow> json list \<Rightarrow> error + json list"
where
  "teams_loop dumps db [] team_json = Inr team_json"
| "teams_loop dumps db (team # rest) team_json =
     (let team_dict = [];
          team_dict = dict_set team_dict ''id'' (JInt (int (t_id team)));
          team_dict = dict_set team_dict ''name'' (t_name team)
      in case users_to_json dumps db (members db team) False of
           Inl e \<Rightarrow> Inl e
         | Inr members_doc \<Rightarrow>
             teams_loop dumps db rest
               (team_json @ [JDict (dict_set team_dict ''members'' members_doc)]))"

definition teams_to_json :: "(json \<Rightarrow> string) \<Rightarrow> store \<Rightarrow> team_row list \<Rightarrow> error + string" where
  "teams_to_json dumps db teams =
     (case teams_loop dumps db teams [] of
        Inl e \<Rightarrow> Inl e
      | Inr team_json \<Rightarrow> Inr (dumps (JList team_json)))"

section \<open>Ingestion layer\<close>

text \<open>
  Objects constructed by \<^verbatim>\<open>Team(...)\<close>, \<^verbatim>\<open>Company(...)\<close> and \<^verbatim>\<open>User(...)\<close>,
  not yet rows. Each has an identity (\<open>ref\<close>, the allocation number of the object); a
  user holds the identities of the company and team objects it was given. The
  constructors take any value for a column attribute.
\<close>

record team_obj =
  to_ref :: nat
  to_name :: json

record company_obj =
  co_ref :: nat
  co_name :: json

record user_obj =
  uo_ref :: nat
  uo_name :: json
  uo_email :: json
  uo_company :: nat
  uo_team :: nat

text \<open>
  The session of a request: the store it works on, the objects handed to
  \<^verbatim>\<open>db.session.add\<close> / \<^verbatim>\<open>add_all\<close> so far, and the allocation counter. (The ORM
  also adds the objects reachable from an added one; in \<^verbatim>\<open>add_post_json\<close> these
  are the very objects the two \<^verbatim>\<open>add_all\<close> calls add.)
\<close>

record session =
  s_db :: store
  new_teams :: "team_obj list"
  new_companies :: "company_obj list"
  new_users :: "user_obj list"
  next_ref :: nat

text \<open>\<^verbatim>\<open>v[k]\<close> with a string key \<open>k\<close>, on a value of a parsed JSON document.\<close>

fun subscript :: "json \<Rightarrow> string \<Rightarrow> error + json" where
  "subscript (JDict items) k =
     (case map_of items k of None \<Rightarrow> Inl (KeyError k) | Some v \<Rightarrow> Inr v)"
| "subscript _ k = Inl TypeError"

text \<open>
  \<^verbatim>\<open>for member in v\<close>: a list yields its elements, a dict its keys, a string its
  characters; nothing else is iterable.
\<close>

fun iterate :: "json \<Rightarrow> error + json list" where
  "iterate (JList xs) = Inr xs"
| "iterate (JDict items) = Inr (map (\<lambda>(k, v). JString k) items)"
| "iterate (JString s) = Inr (map (\<lambda>c. JString [c]) s)"
| "iterate _ = Inl TypeError"

text \<open>
  \<^verbatim>\<open>company not in companies\<close> compares Company objects. The class defines no
  \<^verbatim>\<open>__eq__\<close>: two objects are equal exactly when they are the same object.
\<close>

definition company_eq :: "company_obj \<Rightarrow> company_obj \<Rightarrow> bool" where
  "company_eq a b = (co_ref a = co_ref b)"

definition company_in :: "company_obj \<Rightarrow> company_obj list \<Rightarrow> bool" where
  "company_in c cs = (\<exists>x \<in> set cs. company_eq x c)"

text \<open>
  The loop of \<^verbatim>\<open>add_post_json\<close> over the members, with the lists
  \<^verbatim>\<open>companies\<close> and \<^verbatim>\<open>users\<close> and the allocation counter as the state. The result
  is the state at the end of the loop or at the exception.
\<close>

fun add_members ::
  "nat \<Rightarrow> json list \<Rightarrow> company_obj list \<Rightarrow> user_obj list \<Rightarrow> nat
     \<Rightarrow> (error + unit) \<times> company_obj list \<times> user_obj list \<times> nat"
where
  "add_members team [] companies users n = (Inr (), companies, users, n)"
| "add_members team (member # rest) companies users n =
     (case subscript member ''company'' of
        Inl e \<Rightarrow> (Inl e, companies, users, n)
      | Inr cname \<Rightarrow>
          (let company = \<lparr>co_ref = n, co_name = cname\<rparr>;
               companies' = (if \<not> company_in company companies
                             then companies @ [company] else companies)
           in case subscript member ''name'' of
                Inl e \<Rightarrow> (Inl e, companies', users, Suc n)
              | Inr uname \<Rightarrow>
                  (case subscript member ''email'' of
                     Inl e \<Rightarrow> (Inl e, companies', users, Suc n)
                   | Inr uemail \<Rightarrow>
                       add_members team rest companies'
                         (users @ [\<lparr>uo_ref = Suc n, uo_name = uname, uo_email = uemail,
                                    uo_company = co_ref company, uo_team = team\<rparr>])
                         (Suc (Suc n)))))"

text \<open>
  \<^verbatim>\<open>db.session.add\<close> and \<^verbatim>\<open>add_all\<close>: an object already in the session is not
  added again.
\<close>

definition session_add_team :: "team_obj \<Rightarrow> session \<Rightarrow> session" where
  "session_add_team t s =
     (if to_ref t \<in> set (map to_ref (new_teams s)) then s
      else s\<lparr>new_teams := new_teams s @ [t]\<rparr>)"

definition session_add_company :: "company_obj \<Rightarrow> session \<Rightarrow> session" where
  "session_add_company c s =
     (if co_ref c \<in> set (map co_ref (new_companies s)) then s
      else s\<lparr>new_companies := new_companies s @ [c]\<rparr>)"

definition session_add_user :: "user_obj \<Rightarrow> session \<Rightarrow> session" where
  "session_add_user u s =
     (if uo_ref u \<in> set (map uo_ref (new_users s)) then s
      else s\<lparr>new_users := new_users s @ [u]\<rparr>)"

definition add_post_json :: "json \<Rightarrow> session \<Rightarrow> (error + unit) \<times> session" where
  "add_post_json json_data s =
     (case subscript json_data ''name'' of
        Inl e \<Rightarrow> (Inl e, s)
      | Inr tname \<Rightarrow>
          (let team = \<lparr>to_ref = next_ref s, to_name = tname\<rparr>;
               s1 = s\<lparr>next_ref := Suc (next_ref s)\<rparr>
           in case subscript json_data ''members'' of
                Inl e \<Rightarrow> (Inl e, s1)
              | Inr ms \<Rightarrow>
                  (case iterate ms of
                     Inl e \<Rightarrow> (Inl e, s1)
                   | Inr member_list \<Rightarrow>
                       (case add_members (to_ref team) member_list [] [] (next_ref s1) of
                          (Inl e, companies, users, n) \<Rightarrow> (Inl e, s1\<lparr>next_ref := n\<rparr>)
                        | (Inr u, companies, users, n) \<Rightarrow>
                            (Inr (),
                             fold session_add_user users
                               (fold session_add_company companies
                                  (session_add_team team (s1\<lparr>next_ref := n\<rparr>))))))))"

section \<open>The store's commit and the route that ingests\<close>

text \<open>The id the store gives the next row of a table: one more than the largest.\<close>

definition fresh_id :: "nat list \<Rightarrow> nat" where
  "fresh_id ids = Suc (fold max ids 0)"

text \<open>
  Modelled from the spec: the store's commit, which is not code of the repository
  (``identifiers are assigned by the store on persistence''; ``persist the Team, all newly
  created Companies, and all newly created Users in one operation''). Every object of the
  session becomes a row at the end of its table, with consecutive new ids in the order in
  which the objects were added; a user's foreign keys are the ids given to the team and
  company objects it holds. Column values are stored as they are: what the store does
  with a value that is not a string is not modelled.
\<close>

definition commit :: "session \<Rightarrow> session" where
  "commit s =
     (let d = s_db s;
          tids = enumerate (fresh_id (map t_id (teams_tbl d))) (new_teams s);
          cids = enumerate (fresh_id (map c_id (companies_tbl d))) (new_companies s);
          uids = enumerate (fresh_id (map u_id (users_tbl d))) (new_users s);
          team_key = map_of (map (\<lambda>(i, t). (to_ref t, i)) tids);
          company_key = map_of (map (\<lambda>(i, c). (co_ref c, i)) cids)
      in s\<lparr>s_db :=
             \<lparr>teams_tbl = teams_tbl d @ map (\<lambda>(i, t). \<lparr>t_id = i, t_name = to_name t\<rparr>) tids,
              users_tbl = users_tbl d @
                map (\<lambda>(i, u). \<lparr>u_id = i, u_name = uo_name u, u_email = uo_email u,
                               u_team_id = team_key (uo_team u),
                               u_company_id = company_key (uo_company u)\<rparr>) uids,
              companies_tbl = companies_tbl d @
                map (\<lambda>(i, c). \<lparr>c_id = i, c_name = co_name c\<rparr>) cids\<rparr>,
           new_teams := [], new_companies := [], new_users := []\<rparr>)"

text \<open>A request starts with a session of its own, with nothing added.\<close>

definition new_session :: "store \<Rightarrow> session" where
  "new_session d = \<lparr>s_db = d, new_teams = [], new_companies = [], new_users = [], next_ref = 0\<rparr>"

text \<open>
  The route \<^verbatim>\<open>add_team\<close>: \<^verbatim>\<open>add_post_json\<close> on the posted document, and
  (\<^verbatim>\<open>SQLALCHEMY_COMMIT_ON_TEARDOWN\<close>) the commit when the request ends without an
  exception; with an exception the session is dropped and the store stays as it was.
\<close>

definition add_team :: "json \<Rightarrow> store \<Rightarrow> (error + string) \<times> store" where
  "add_team post_data d =
     (case add_post_json post_data (new_session d) of
        (Inl e, s) \<Rightarrow> (Inl e, d)
      | (Inr u, s) \<Rightarrow> (Inr ''Added Team'', s_db (commit s)))"

section \<open>Vocabulary of the properties\<close>

text \<open>
  ``The team has at least one member whose company's name equals the argument.''
\<close>

definition has_member_of :: "store \<Rightarrow> string \<Rightarrow> team_row \<Rightarrow> bool" where
  "has_member_of db companyname team =
     list_ex (\<lambda>m. case company db m of None \<Rightarrow> False | Some c \<Rightarrow> c_name c = JString companyname)
       (members db team)"

text \<open>Every member of each of the teams has a company row.\<close>

definition members_resolve :: "store \<Rightarrow> team_row list \<Rightarrow> bool" where
  "members_resolve db ts = list_all (\<lambda>t. list_all (\<lambda>m. company db m \<noteq> None) (members db t)) ts"

text \<open>
  The invariants of the data model: ids are primary keys, and every user has exactly one
  team and exactly one company (both foreign keys are set and point to a row).
\<close>

definition store_ok :: "store \<Rightarrow> bool" where
  "store_ok db =
     (distinct (map t_id (teams_tbl db)) \<and>
      distinct (map c_id (companies_tbl db)) \<and>
      distinct (map u_id (users_tbl db)) \<and>
      list_all (\<lambda>u. (case u_team_id u of
                        None \<Rightarrow> False
                      | Some tid \<Rightarrow> tid \<in> set (map t_id (teams_tbl db))) \<and>
                     (case u_company_id u of
                        None \<Rightarrow> False
                      | Some cid \<Rightarrow> cid \<in> set (map c_id (companies_tbl db))))
        (users_tbl db))"

definition empty_store :: store where
  "empty_store = \<lparr>teams_tbl = [], users_tbl = [], companies_tbl = []\<rparr>"

text \<open>
  A store with the teams, users and companies that \<^verbatim>\<open>add_test_data\<close> creates: two
  teams of two users each, the users of a team sharing one company.
\<close>

definition example_store :: store where
  "example_store =
     \<lparr>teams_tbl =
        [\<lparr>t_id = 1, t_name = JString ''NWA''\<rparr>, \<lparr>t_id = 2, t_name = JString ''GFUNK''\<rparr>],
      users_tbl =
        [\<lparr>u_id = 1, u_name = JString ''Ice Cube'', u_email = JString ''icecube@gmail.com'',
          u_team_id = Some 1, u_company_id = Some 1\<rparr>,
         \<lparr>u_id = 2, u_name = JString ''MC Ren'', u_email = JString ''ren@hotmail.com'',
          u_team_id = Some 1, u_company_id = Some 1\<rparr>,
         \<lparr>u_id = 3, u_name = JString ''Warren G'', u_email = JString ''warren@gmail.com'',
          u_team_id = Some 2, u_company_id = Some 2\<rparr>,
         \<lparr>u_id = 4, u_name = JString ''Nate Dogg'', u_email = JString ''nate@gmail.com'',
          u_team_id = Some 2, u_company_id = Some 2\<rparr>],
      companies_tbl =
        [\<lparr>c_id = 1, c_name = JString ''Ruthless_Records''\<rparr>,
         \<lparr>c_id = 2, c_name = JString ''Def_Jam_Records''\<rparr>]\<rparr>"

subsection \<open>Which members the company scan compares\<close>

text \<open>
  The loops of \<^verbatim>\<open>get_team_by_company\<close> once more, with a second accumulator that
  records each member for which \<^verbatim>\<open>member.company.name == companyname\<close> is
  evaluated. Nothing else differs from \<open>scan_members\<close> and \<open>scan_teams\<close>.
\<close>

fun scan_members_log ::
  "store \<Rightarrow> string \<Rightarrow> team_row \<Rightarrow> user_row list \<Rightarrow> team_row list \<times> user_row list
     \<Rightarrow> error + team_row list \<times> user_row list"
where
  "scan_members_log db companyname team [] (filtered_teams, compared) =
     Inr (filtered_teams, compared)"
| "scan_members_log db companyname team (member # rest) (filtered_teams, compared) =
     (case company db member of
        None \<Rightarrow> Inl AttributeError
      | Some c \<Rightarrow>
          scan_members_log db companyname team rest
            (if c_name c = JString companyname \<and> \<not> team_in team filtered_teams
             then filtered_teams @ [team] else filtered_teams,
             compared @ [member]))"

fun scan_teams_log ::
  "store \<Rightarrow> string \<Rightarrow> team_row list \<Rightarrow> team_row list \<times> user_row list
     \<Rightarrow> error + team_row list \<times> user_row list"
where
  "scan_teams_log db companyname [] acc = Inr acc"
| "scan_teams_log db companyname (team # rest) acc =
     (case scan_members_log db companyname team (members db team) acc of
        Inl e \<Rightarrow> Inl e
      | Inr acc' \<Rightarrow> scan_teams_log db companyname rest acc')"

definition get_team_by_company_log ::
  "store \<Rightarrow> string \<Rightarrow> error + team_row list \<times> user_row list"
where
  "get_team_by_company_log db companyname =
     scan_teams_log db companyname (get_all_teams db) ([], [])"

text \<open>
  The scan as the specification words it: ``first qualifying member is sufficient,
  subsequent members are not re-checked (short-circuit per team)''. The scan of a team
  stops at its first member whose company name equals the target.
\<close>

fun scan_members_break ::
  "store \<Rightarrow> string \<Rightarrow> team_row \<Rightarrow> user_row list \<Rightarrow> team_row list \<times> user_row list
     \<Rightarrow> error + team_row list \<times> user_row list"
where
  "scan_members_break db companyname team [] (filtered_teams, compared) =
     Inr (filtered_teams, compared)"
| "scan_members_break db companyname team (member # rest) (filtered_teams, compared) =
     (case company db member of
        None \<Rightarrow> Inl AttributeError
      | Some c \<Rightarrow>
          if c_name c = JString companyname
          then Inr (if team_in team filtered_teams then filtered_teams
                    else filtered_teams @ [team],
                    compared @ [member])
          else scan_members_break db companyname team rest
                 (filtered_teams, compared @ [member]))"

fun scan_teams_break ::
  "store \<Rightarrow> string \<Rightarrow> team_row list \<Rightarrow> team_row list \<times> user_row list
     \<Rightarrow> error + team_row list \<times> user_row list"
where
  "scan_teams_break db companyname [] acc = Inr acc"
| "scan_teams_break db companyname (team # rest) acc =
     (case scan_members_break db companyname team (members db team) acc of
        Inl e \<Rightarrow> Inl e
      | Inr acc' \<Rightarrow> scan_teams_break db companyname rest acc')"

definition short_circuit_scan ::
  "store \<Rightarrow> string \<Rightarrow> error + team_row list \<times> user_row list"
where
  "short_circuit_scan db companyname =
     scan_teams_break db companyname (get_all_teams db) ([], [])"

subsection \<open>A serializer for the examples\<close>

text \<open>
  An instance of the parameter \<open>dumps\<close>: the compact text of a document (no spaces
  between items), for documents whose strings need no escape. The theorems hold for any
  \<open>dumps\<close>; the examples are evaluated with this one.
\<close>

fun nat_digits :: "nat \<Rightarrow> string" where
  "nat_digits n =
     (if n < 10 then [''0123456789'' ! n]
      else nat_digits (n div 10) @ [''0123456789'' ! (n mod 10)])"

declare nat_digits.simps [simp del]

definition int_text :: "int \<Rightarrow> string" where
  "int_text i = (if i < 0 then CHR ''-'' # nat_digits (nat (- i)) else nat_digits (nat i))"

definition quoted :: "string \<Rightarrow> string" where
  "quoted s = CHR 0x22 # s @ [CHR 0x22]"

fun comma_separated :: "string list \<Rightarrow> string" where
  "comma_separated [] = []"
| "comma_separated [x] = x"
| "comma_separated (x # y # ys) = x @ CHR '','' # comma_separated (y # ys)"

fun dumps_plain :: "json \<Rightarrow> string" where
  "dumps_plain JNull = ''null''"
| "dumps_plain (JBool b) = (if b then ''true'' else ''false'')"
| "dumps_plain (JInt i) = int_text i"
| "dumps_plain (JString s) = quoted s"
| "dumps_plain (JList xs) = CHR ''['' # comma_separated (map dumps_plain xs) @ '']''"
| "dumps_plain (JDict items) =
     CHR ''{'' #
     comma_separated (map (\<lambda>(k, v). quoted k @ CHR '':'' # dumps_plain v) items) @ ''}''"

subsection \<open>The documents of the specification\<close>

text \<open>
  The three projections as the specification gives them: a company document has the
  fields name and id; a user document has id, name, company (the company's document,
  inline) and email; a team document has id, name and members (the documents of
  \<^verbatim>\<open>team.members\<close>, in that order). A user without a company row has no
  document, and neither has a team with such a member.
\<close>

definition projectCompany :: "company_row \<Rightarrow> json" where
  "projectCompany c = JDict [(''name'', c_name c), (''id'', JInt (int (c_id c)))]"

definition projectUser :: "store \<Rightarrow> user_row \<Rightarrow> json option" where
  "projectUser db u =
     map_option
       (\<lambda>c. JDict [(''id'', JInt (int (u_id u))), (''name'', u_name u),
                   (''company'', projectCompany c), (''email'', u_email u)])
       (company db u)"

definition projectTeam :: "store \<Rightarrow> team_row \<Rightarrow> json option" where
  "projectTeam db t =
     map_option
       (\<lambda>us. JDict [(''id'', JInt (int (t_id t))), (''name'', t_name t), (''members'', JList us)])
       (those (map (projectUser db) (members db t)))"

subsection \<open>Ingested documents\<close>

text \<open>
  The three values the loop reads from a member, in the order in which it reads them:
  \<^verbatim>\<open>member['company']\<close>, \<^verbatim>\<open>member['name']\<close>, \<^verbatim>\<open>member['email']\<close>;
  \<open>None\<close> when one of the reads raises.
\<close>

definition member_fields :: "json \<Rightarrow> (json \<times> json \<times> json) option" where
  "member_fields member =
     (case subscript member ''company'' of
        Inl e \<Rightarrow> None
      | Inr cname \<Rightarrow>
          (case subscript member ''name'' of
             Inl e \<Rightarrow> None
           | Inr uname \<Rightarrow>
               (case subscript member ''email'' of
                  Inl e \<Rightarrow> None
                | Inr uemail \<Rightarrow> Some (cname, uname, uemail))))"

text \<open>
  The objects the loop constructs, member by member, when \<open>n\<close> is the allocation
  counter at its start: \<^verbatim>\<open>Company(name=member['company'])\<close>, then
  \<^verbatim>\<open>User(name=..., email=..., company=company, team=team)\<close>.
\<close>

fun constructed :: "nat \<Rightarrow> nat \<Rightarrow> json list \<Rightarrow> (company_obj \<times> user_obj) list" where
  "constructed team n [] = []"
| "constructed team n (member # rest) =
     (case member_fields member of
        None \<Rightarrow> []
      | Some (cname, uname, uemail) \<Rightarrow>
          (\<lparr>co_ref = n, co_name = cname\<rparr>,
           \<lparr>uo_ref = Suc n, uo_name = uname, uo_email = uemail, uo_company = n, uo_team = team\<rparr>)
          # constructed team (Suc (Suc n)) rest)"

text \<open>
  Every object in the session was allocated before: its identity is below the
  allocation counter. A new session is such a session.
\<close>

definition session_ok :: "session \<Rightarrow> bool" where
  "session_ok s =
     (list_all (\<lambda>t. to_ref t < next_ref s) (new_teams s) \<and>
      list_all (\<lambda>c. co_ref c < next_ref s) (new_companies s) \<and>
      list_all (\<lambda>u. uo_ref u < next_ref s) (new_users s))"

text \<open>
  The input contract of the member entries: name, email and company are there and are
  strings.
\<close>

fun is_string :: "json \<Rightarrow> bool" where
  "is_string (JString s) = True"
| "is_string _ = False"

definition member_ok :: "json \<Rightarrow> bool" where
  "member_ok member =
     (case member_fields member of
        None \<Rightarrow> False
      | Some (cname, uname, uemail) \<Rightarrow> is_string cname \<and> is_string uname \<and> is_string uemail)"

text \<open>The first of the keys the loop reads that a member entry lacks.\<close>

definition first_missing :: "(string \<times> json) list \<Rightarrow> string option" where
  "first_missing items = find (\<lambda>k. map_of items k = None) [''company'', ''name'', ''email'']"

text \<open>The value of a field of a document (null when it cannot be read).\<close>

definition field :: "json \<Rightarrow> string \<Rightarrow> json" where
  "field v k = (case subscript v k of Inl e \<Rightarrow> JNull | Inr x \<Rightarrow> x)"

text \<open>
  The document of the specification's scenario, and the same document with the second
  member's email missing.
\<close>

definition nwa_document :: json where
  "nwa_document =
     JDict [(''name'', JString ''NWA''),
            (''members'', JList
               [JDict [(''name'', JString ''Ice Cube''), (''email'', JString ''icecube@gmail.com''),
                       (''company'', JString ''Ruthless_Records'')],
                JDict [(''name'', JString ''MC Ren''), (''email'', JString ''ren@hotmail.com''),
                       (''company'', JString ''Ruthless_Records'')]])]"

definition broken_document :: json where
  "broken_document =
     JDict [(''name'', JString ''NWA''),
            (''members'', JList
               [JDict [(''name'', JString ''Ice Cube''), (''email'', JString ''icecube@gmail.com''),
                       (''company'', JString ''Ruthless_Records'')],
                JDict [(''name'', JString ''MC Ren''),
                       (''company'', JString ''Ruthless_Records'')]])]"

section \<open>Properties of the query layer\<close>

lemma scan_members_step:
  "scan_members db cn team ms ft = Inr r \<Longrightarrow> r = ft \<or> (r = ft @ [team] \<and> \<not> team_in team ft)"
proof (induction ms arbitrary: ft)
  case Nil
  then show ?case by simp
next
  case (Cons m ms)
  from Cons.prems obtain c where c: "company db m = Some c"
    by (auto split: option.splits)
  show ?case
  proof (cases "c_name c = JString cn \<and> \<not> team_in team ft")
    case True
    with Cons.prems c have "scan_members db cn team ms (ft @ [team]) = Inr r" by simp
    from Cons.IH [OF this] True show ?thesis by (auto simp: team_in_def)
  next
    case False
    with Cons.prems c have "scan_members db cn team ms ft = Inr r" by auto
    from Cons.IH [OF this] show ?thesis .
  qed
qed

lemma scan_members_resolved:
  "list_all (\<lambda>m. company db m \<noteq> None) ms \<Longrightarrow>
   scan_members db cn team ms ft =
     Inr (if list_ex (\<lambda>m. case company db m of None \<Rightarrow> False | Some c \<Rightarrow> c_name c = JString cn) ms
             \<and> \<not> team_in team ft
          then ft @ [team] else ft)"
proof (induction ms arbitrary: ft)
  case Nil
  then show ?case by simp
next
  case (Cons m ms)
  then show ?case
    by (auto split: option.splits simp: team_in_def)
qed

lemma scan_teams_subseq:
  "scan_teams db cn ts ft = Inr r \<Longrightarrow> \<exists>ys. r = ft @ ys \<and> subseq ys ts"
proof (induction ts arbitrary: ft)
  case Nil
  then show ?case by simp
next
  case (Cons t ts)
  from Cons.prems obtain ft' where
    m: "scan_members db cn t (members db t) ft = Inr ft'" and
    r: "scan_teams db cn ts ft' = Inr r"
    by (auto split: sum.splits)
  from Cons.IH [OF r] obtain ys where ys: "r = ft' @ ys" "subseq ys ts" by blast
  from scan_members_step [OF m] show ?case
  proof
    assume "ft' = ft"
    with ys show ?thesis by auto
  next
    assume "ft' = ft @ [t] \<and> \<not> team_in t ft"
    with ys show ?thesis by auto
  qed
qed

lemma scan_teams_filter:
  "members_resolve db ts \<Longrightarrow> distinct (map t_id ts) \<Longrightarrow> \<forall>t \<in> set ts. \<not> team_in t ft \<Longrightarrow>
   scan_teams db cn ts ft = Inr (ft @ filter (has_member_of db cn) ts)"
proof (induction ts arbitrary: ft)
  case Nil
  then show ?case by simp
next
  case (Cons t ts)
  have res: "list_all (\<lambda>m. company db m \<noteq> None) (members db t)"
    using Cons.prems(1) by (simp add: members_resolve_def)
  have rest: "members_resolve db ts" using Cons.prems(1) by (simp add: members_resolve_def)
  have notin: "\<not> team_in t ft" using Cons.prems(3) by simp
  show ?case
  proof (cases "has_member_of db cn t")
    case True
    have "\<forall>t' \<in> set ts. \<not> team_in t' (ft @ [t])"
    proof
      fix t' assume t': "t' \<in> set ts"
      with Cons.prems(2) have "t_id t' \<noteq> t_id t" by (auto simp: image_iff)
      moreover from t' Cons.prems(3) have "\<not> team_in t' ft" by simp
      ultimately show "\<not> team_in t' (ft @ [t])" by (simp add: team_in_def)
    qed
    from Cons.IH [OF rest _ this] Cons.prems(2) True notin res show ?thesis
      by (simp add: scan_members_resolved has_member_of_def)
  next
    case False
    have "\<forall>t' \<in> set ts. \<not> team_in t' ft" using Cons.prems(3) by simp
    from Cons.IH [OF rest _ this] Cons.prems(2) False res show ?thesis
      by (simp add: scan_members_resolved has_member_of_def)
  qed
qed

lemma get_team_by_company_filter:
  "members_resolve db (teams_tbl db) \<Longrightarrow> distinct (map t_id (teams_tbl db)) \<Longrightarrow>
   get_team_by_company db cn = Inr (filter (has_member_of db cn) (get_all_teams db))"
  using scan_teams_filter [of db "teams_tbl db" "[]" cn]
  by (simp add: get_team_by_company_def get_all_teams_def team_in_def)

lemmas ex_simps = get_team_by_company_def get_all_teams_def example_store_def members_def
  company_def team_in_def

lemma find_some_mem: "k \<in> set (map f xs) \<Longrightarrow> find (\<lambda>x. f x = k) xs \<noteq> None"
  by (auto simp: find_None_iff)

lemma store_ok_company_key:
  assumes "store_ok db" and "u \<in> set (users_tbl db)"
  shows "\<exists>cid. u_company_id u = Some cid \<and> cid \<in> set (map c_id (companies_tbl db))"
proof -
  from assms have "case u_company_id u of None \<Rightarrow> False
                   | Some cid \<Rightarrow> cid \<in> set (map c_id (companies_tbl db))"
    by (simp add: store_ok_def list_all_iff)
  then show ?thesis by (cases "u_company_id u") simp_all
qed

lemma store_ok_company: "store_ok db \<Longrightarrow> u \<in> set (users_tbl db) \<Longrightarrow> company db u \<noteq> None"
  using store_ok_company_key [of db u] find_some_mem [of _ c_id "companies_tbl db"]
  by (auto simp: company_def)

lemma store_ok_resolve: "store_ok db \<Longrightarrow> members_resolve db ts"
  unfolding members_resolve_def list_all_iff
  by (auto simp: members_def dest: store_ok_company)

lemma store_ok_distinct: "store_ok db \<Longrightarrow> distinct (map t_id (teams_tbl db))"
  by (simp add: store_ok_def)

lemma example_store_ok: "store_ok example_store"
  by (simp add: store_ok_def example_store_def)

text \<open>
  Claim C1. On a store that satisfies the invariants of the data model,
  \<^verbatim>\<open>get_team_by_company\<close> returns without an exception, and its result holds
  exactly the persisted teams that have at least one member whose company's name is the
  argument; no team is in it twice; and it is empty when no user's company has that
  name.
\<close>

theorem get_team_by_company_exact:
  assumes "store_ok db"
  shows "\<exists>r. get_team_by_company db c = Inr r \<and>
             set r = {t \<in> set (get_all_teams db). has_member_of db c t} \<and>
             distinct (map t_id r) \<and>
             ((\<forall>u \<in> set (users_tbl db). \<forall>co. company db u = Some co \<longrightarrow> c_name co \<noteq> JString c)
                \<longrightarrow> r = [])"
proof -
  let ?r = "filter (has_member_of db c) (get_all_teams db)"
  have eq: "get_team_by_company db c = Inr ?r"
    using assms by (simp add: get_team_by_company_filter store_ok_resolve store_ok_distinct)
  have d: "distinct (map t_id ?r)"
    using store_ok_distinct [OF assms] by (simp add: get_all_teams_def distinct_map_filter)
  have e: "(\<forall>u \<in> set (users_tbl db). \<forall>co. company db u = Some co \<longrightarrow> c_name co \<noteq> JString c)
             \<longrightarrow> ?r = []"
    by (auto simp: filter_empty_conv has_member_of_def list_ex_iff members_def split: option.splits)
  from eq d e show ?thesis by auto
qed

theorem get_team_by_company_exact_witness:
  "store_ok example_store \<and>
   get_team_by_company example_store ''Ruthless_Records'' =
     Inr [\<lparr>t_id = 1, t_name = JString ''NWA''\<rparr>] \<and>
   get_team_by_company example_store ''Death_Row'' = Inr [] \<and>
   (\<exists>r. get_team_by_company example_store ''Ruthless_Records'' = Inr r \<and>
        set r = {t \<in> set (get_all_teams example_store).
                   has_member_of example_store ''Ruthless_Records'' t} \<and>
        distinct (map t_id r))"
proof -
  have a: "get_team_by_company example_store ''Ruthless_Records'' =
      Inr [\<lparr>t_id = 1, t_name = JString ''NWA''\<rparr>]"
    by (simp add: ex_simps)
  have b: "get_team_by_company example_store ''Death_Row'' = Inr []"
    by (simp add: ex_simps)
  from get_team_by_company_exact [OF example_store_ok, of "''Ruthless_Records''"]
  have "\<exists>r. get_team_by_company example_store ''Ruthless_Records'' = Inr r \<and>
        set r = {t \<in> set (get_all_teams example_store).
                   has_member_of example_store ''Ruthless_Records'' t} \<and>
        distinct (map t_id r)"
    by blast
  with a b example_store_ok show ?thesis by blast
qed

text \<open>
  Claim C10. Whatever \<^verbatim>\<open>get_team_by_company\<close> returns is a subsequence of what
  \<^verbatim>\<open>get_all_teams\<close> returns; on a store that satisfies the invariants of the data
  model it is that listing filtered by ``has a member of the company'', so each
  qualifying team stands at its place in the listing.
\<close>

theorem get_team_by_company_subseq:
  "(\<forall>r. get_team_by_company db c = Inr r \<longrightarrow> subseq r (get_all_teams db)) \<and>
   (store_ok db \<longrightarrow>
      get_team_by_company db c = Inr (filter (has_member_of db c) (get_all_teams db)))"
proof (intro conjI allI impI)
  fix r assume "get_team_by_company db c = Inr r"
  then show "subseq r (get_all_teams db)"
    using scan_teams_subseq [of db c "get_all_teams db" "[]" r]
    by (auto simp: get_team_by_company_def)
next
  assume "store_ok db"
  then show "get_team_by_company db c = Inr (filter (has_member_of db c) (get_all_teams db))"
    by (simp add: get_team_by_company_filter store_ok_resolve store_ok_distinct)
qed

theorem get_team_by_company_subseq_witness:
  "store_ok example_store \<and>
   get_team_by_company example_store ''Def_Jam_Records'' = Inr [\<lparr>t_id = 2, t_name = JString ''GFUNK''\<rparr>] \<and>
   subseq [\<lparr>t_id = 2, t_name = JString ''GFUNK''\<rparr>] (get_all_teams example_store)"
proof -
  have a: "get_team_by_company example_store ''Def_Jam_Records'' = Inr [\<lparr>t_id = 2, t_name = JString ''GFUNK''\<rparr>]"
    by (simp add: get_team_by_company_def get_all_teams_def example_store_def members_def company_def team_in_def)
  from get_team_by_company_subseq [of example_store "''Def_Jam_Records''"] a example_store_ok
  show ?thesis by simp
qed

lemma scan_members_log_eq:
  "scan_members_log db cn team ms (ft, lg) =
     (case scan_members db cn team ms ft of Inl e \<Rightarrow> Inl e | Inr r \<Rightarrow> Inr (r, lg @ ms))"
  by (induction ms arbitrary: ft lg) (auto split: option.splits sum.splits)

lemma scan_teams_log_eq:
  "scan_teams_log db cn ts (ft, lg) =
     (case scan_teams db cn ts ft of
        Inl e \<Rightarrow> Inl e
      | Inr r \<Rightarrow> Inr (r, lg @ concat (map (members db) ts)))"
proof (induction ts arbitrary: ft lg)
  case Nil
  then show ?case by simp
next
  case (Cons t ts)
  show ?case
    by (cases "scan_members db cn t (members db t) ft")
       (simp_all add: scan_members_log_eq Cons.IH split: sum.splits)
qed

lemma scan_members_present:
  "team_in team ft \<Longrightarrow> scan_members db cn team ms ft = Inr r \<Longrightarrow> r = ft"
  using scan_members_step [of db cn team ms ft r] by auto

lemma scan_members_break_fst:
  "scan_members db cn team ms ft = Inr r \<Longrightarrow>
   \<exists>lg'. scan_members_break db cn team ms (ft, lg) = Inr (r, lg')"
proof (induction ms arbitrary: ft lg)
  case Nil
  then show ?case by simp
next
  case (Cons m ms)
  from Cons.prems obtain c where c: "company db m = Some c"
    by (auto split: option.splits)
  show ?case
  proof (cases "c_name c = JString cn")
    case False
    with Cons.prems c have "scan_members db cn team ms ft = Inr r" by simp
    from Cons.IH [OF this, of "lg @ [m]"] c False show ?thesis by simp
  next
    case True
    show ?thesis
    proof (cases "team_in team ft")
      case True
      with Cons.prems c have "scan_members db cn team ms ft = Inr r" by simp
      from scan_members_present [OF True this] c True \<open>c_name c = JString cn\<close>
      show ?thesis by simp
    next
      case False
      with Cons.prems c True have r: "scan_members db cn team ms (ft @ [team]) = Inr r" by simp
      have "team_in team (ft @ [team])" by (simp add: team_in_def)
      from scan_members_present [OF this r] c True False show ?thesis by simp
    qed
  qed
qed

lemma scan_teams_break_fst:
  "scan_teams db cn ts ft = Inr r \<Longrightarrow>
   \<exists>lg'. scan_teams_break db cn ts (ft, lg) = Inr (r, lg')"
proof (induction ts arbitrary: ft lg)
  case Nil
  then show ?case by simp
next
  case (Cons t ts)
  from Cons.prems obtain ft' where
    m: "scan_members db cn t (members db t) ft = Inr ft'" and
    r: "scan_teams db cn ts ft' = Inr r"
    by (auto split: sum.splits)
  from scan_members_break_fst [OF m, of lg] obtain lg1 where
    b: "scan_members_break db cn t (members db t) (ft, lg) = Inr (ft', lg1)" by blast
  from Cons.IH [OF r, of lg1] b show ?case by simp
qed

text \<open>
  Claim C4, as amended. The scan does not stop at the first qualifying member: whenever
  it completes, the company name of every member of every team has been compared with
  the target, in the order of the listing. The first qualifying member suffices to
  qualify the team, and later members of that team do not add it again: the result is
  the one the short-circuiting scan returns.
\<close>

theorem get_team_by_company_compares_every_member:
  "get_team_by_company_log db c =
     (case get_team_by_company db c of
        Inl e \<Rightarrow> Inl e
      | Inr r \<Rightarrow> Inr (r, concat (map (members db) (get_all_teams db)))) \<and>
   (\<forall>r. get_team_by_company db c = Inr r \<longrightarrow>
        (\<exists>compared. short_circuit_scan db c = Inr (r, compared)))"
  using scan_teams_break_fst [of db c "get_all_teams db" "[]" _ "[]"]
  by (simp add: get_team_by_company_log_def get_team_by_company_def short_circuit_scan_def
      scan_teams_log_eq cong: sum.case_cong)

theorem get_team_by_company_compares_every_member_witness:
  "get_team_by_company example_store ''Ruthless_Records'' =
     Inr [\<lparr>t_id = 1, t_name = JString ''NWA''\<rparr>] \<and>
   get_team_by_company_log example_store ''Ruthless_Records'' =
     Inr ([\<lparr>t_id = 1, t_name = JString ''NWA''\<rparr>], users_tbl example_store) \<and>
   (\<exists>compared. short_circuit_scan example_store ''Ruthless_Records'' =
      Inr ([\<lparr>t_id = 1, t_name = JString ''NWA''\<rparr>], compared))"
proof -
  have a: "get_team_by_company example_store ''Ruthless_Records'' =
     Inr [\<lparr>t_id = 1, t_name = JString ''NWA''\<rparr>]"
    by (simp add: ex_simps)
  have b: "concat (map (members example_store) (get_all_teams example_store)) =
     users_tbl example_store"
    by (simp add: ex_simps)
  from get_team_by_company_compares_every_member [of example_store "''Ruthless_Records''"] a b
  show ?thesis by simp
qed

text \<open>
  Claim C4, as stated, fails on the example store: \<^verbatim>\<open>get_team_by_company\<close>
  compares MC Ren's company name with the target although Ice Cube has already qualified
  the team; the short-circuiting scan does not.
\<close>

theorem short_circuit_counterexample:
  "map_sum id snd (get_team_by_company_log example_store ''Ruthless_Records'') \<noteq>
   map_sum id snd (short_circuit_scan example_store ''Ruthless_Records'') \<and>
   map_sum id (map u_name \<circ> snd) (get_team_by_company_log example_store ''Ruthless_Records'') =
     Inr [JString ''Ice Cube'', JString ''MC Ren'', JString ''Warren G'', JString ''Nate Dogg''] \<and>
   map_sum id (map u_name \<circ> snd) (short_circuit_scan example_store ''Ruthless_Records'') =
     Inr [JString ''Ice Cube'', JString ''Warren G'', JString ''Nate Dogg'']"
  by (simp add: get_team_by_company_log_def short_circuit_scan_def ex_simps)

text \<open>
  Claim C6. \<^verbatim>\<open>get_team_by_name\<close> returns all and only the persisted teams whose
  name is exactly the given string, in the order of the listing (none, one or several);
  when no team has the name, the result is empty and \<^verbatim>\<open>teams_to_json\<close> of it is
  the serialization of the empty array.
\<close>

theorem get_team_by_name_exact:
  "(\<forall>t. t \<in> set (get_team_by_name db n) \<longleftrightarrow> t \<in> set (get_all_teams db) \<and> t_name t = JString n) \<and>
   subseq (get_team_by_name db n) (get_all_teams db) \<and>
   ((\<forall>t \<in> set (get_all_teams db). t_name t \<noteq> JString n) \<longrightarrow>
      get_team_by_name db n = [] \<and>
      teams_to_json dumps db (get_team_by_name db n) = Inr (dumps (JList [])))"
  by (auto simp: get_team_by_name_def get_all_teams_def teams_to_json_def filter_empty_conv)

theorem get_team_by_name_exact_witness:
  "get_team_by_name example_store ''NWA'' = [\<lparr>t_id = 1, t_name = JString ''NWA''\<rparr>] \<and>
   get_team_by_name example_store ''nwa'' = [] \<and>
   get_team_by_name example_store ''DoesNotExist'' = [] \<and>
   teams_to_json dumps_plain example_store (get_team_by_name example_store ''DoesNotExist'') =
     Inr ''[]''"
proof -
  have a: "\<forall>t \<in> set (get_all_teams example_store). t_name t \<noteq> JString ''DoesNotExist''"
    by (simp add: ex_simps)
  have b: "get_team_by_name example_store ''NWA'' = [\<lparr>t_id = 1, t_name = JString ''NWA''\<rparr>]"
    "get_team_by_name example_store ''nwa'' = []"
    by (simp_all add: get_team_by_name_def example_store_def)
  from get_team_by_name_exact [of example_store "''DoesNotExist''" dumps_plain] a b
  show ?thesis by (simp add: teams_to_json_def)
qed

section \<open>Properties of the projection layer\<close>

lemma company_to_json_raw:
  "company_to_json dumps co False =
     (case co of None \<Rightarrow> Inl AttributeError | Some c \<Rightarrow> Inr (projectCompany c))"
  by (simp add: company_to_json_def projectCompany_def split: option.splits)

lemma users_loop_step:
  "users_loop dumps db (u # us) acc =
     (case projectUser db u of
        None \<Rightarrow> Inl AttributeError
      | Some d \<Rightarrow> users_loop dumps db us (acc @ [d]))"
  by (cases "company db u") (simp_all add: company_to_json_raw projectUser_def)

lemma users_loop_project:
  "users_loop dumps db us acc =
     (case those (map (projectUser db) us) of
        None \<Rightarrow> Inl AttributeError
      | Some docs \<Rightarrow> Inr (acc @ docs))"
proof (induction us arbitrary: acc)
  case Nil
  then show ?case by simp
next
  case (Cons u us)
  show ?case
    by (cases "projectUser db u"; cases "those (map (projectUser db) us)")
       (simp_all add: users_loop_step Cons.IH del: users_loop.simps)
qed

lemma users_to_json_raw:
  "users_to_json dumps db us False =
     (case those (map (projectUser db) us) of
        None \<Rightarrow> Inl AttributeError
      | Some docs \<Rightarrow> Inr (JList docs))"
  by (simp add: users_to_json_def users_loop_project split: option.splits)

lemma teams_loop_step:
  "teams_loop dumps db (t # ts) acc =
     (case projectTeam db t of
        None \<Rightarrow> Inl AttributeError
      | Some d \<Rightarrow> teams_loop dumps db ts (acc @ [d]))"
  by (cases "those (map (projectUser db) (members db t))")
     (simp_all add: users_to_json_raw projectTeam_def)

lemma teams_loop_project:
  "teams_loop dumps db ts acc =
     (case those (map (projectTeam db) ts) of
        None \<Rightarrow> Inl AttributeError
      | Some docs \<Rightarrow> Inr (acc @ docs))"
proof (induction ts arbitrary: acc)
  case Nil
  then show ?case by simp
next
  case (Cons t ts)
  show ?case
    by (cases "projectTeam db t"; cases "those (map (projectTeam db) ts)")
       (simp_all add: teams_loop_step Cons.IH del: teams_loop.simps)
qed

lemma teams_to_json_project:
  "teams_to_json dumps db ts =
     (case those (map (projectTeam db) ts) of
        None \<Rightarrow> Inl AttributeError
      | Some docs \<Rightarrow> Inr (dumps (JList docs)))"
  by (simp add: teams_to_json_def teams_loop_project split: option.splits)

lemma those_Some_map: "(\<And>x. x \<in> set xs \<Longrightarrow> f x \<noteq> None) \<Longrightarrow> those (map f xs) = Some (map (the \<circ> f) xs)"
  by (induction xs) (auto split: option.splits)

lemma store_ok_projectUser:
  assumes "store_ok db" and "set us \<subseteq> set (users_tbl db)"
  shows "those (map (projectUser db) us) = Some (map (the \<circ> projectUser db) us)"
proof (rule those_Some_map)
  fix u assume "u \<in> set us"
  with assms have "company db u \<noteq> None" by (auto dest: store_ok_company)
  then show "projectUser db u \<noteq> None" by (simp add: projectUser_def)
qed

lemma store_ok_projectTeam:
  assumes "store_ok db"
  shows "those (map (projectTeam db) ts) = Some (map (the \<circ> projectTeam db) ts)"
proof (rule those_Some_map)
  fix t
  have "set (members db t) \<subseteq> set (users_tbl db)" by (auto simp: members_def)
  from store_ok_projectUser [OF assms this] show "projectTeam db t \<noteq> None"
    by (simp add: projectTeam_def)
qed

lemmas project_simps = projectTeam_def projectUser_def projectCompany_def

text \<open>
  Claim C7. In raw-document mode \<^verbatim>\<open>company_to_json\<close> returns the company
  document (name, id) and \<^verbatim>\<open>users_to_json\<close> the list of the user documents (id,
  name, company inline, email); \<^verbatim>\<open>teams_to_json\<close> serializes the list of the
  team documents (id, name, members in the order of \<^verbatim>\<open>team.members\<close>). On a
  store that satisfies the invariants of the data model every team has its document.
\<close>

theorem projection_shapes:
  "company_to_json dumps (Some c) False = Inr (projectCompany c) \<and>
   users_to_json dumps db us False =
     (case those (map (projectUser db) us) of
        None \<Rightarrow> Inl AttributeError
      | Some docs \<Rightarrow> Inr (JList docs)) \<and>
   teams_to_json dumps db ts =
     (case those (map (projectTeam db) ts) of
        None \<Rightarrow> Inl AttributeError
      | Some docs \<Rightarrow> Inr (dumps (JList docs))) \<and>
   (store_ok db \<longrightarrow>
      (\<exists>docs. those (map (projectTeam db) ts) = Some docs \<and> length docs = length ts \<and>
         teams_to_json dumps db ts = Inr (dumps (JList docs))))"
  by (simp add: company_to_json_raw users_to_json_raw teams_to_json_project store_ok_projectTeam)

theorem projection_shapes_witness:
  "store_ok example_store \<and>
   teams_to_json dumps_plain example_store (get_team_by_name example_store ''NWA'') =
     Inr (dumps_plain (JList
       [JDict [(''id'', JInt 1), (''name'', JString ''NWA''),
          (''members'', JList
             [JDict [(''id'', JInt 1), (''name'', JString ''Ice Cube''),
                (''company'', JDict [(''name'', JString ''Ruthless_Records''), (''id'', JInt 1)]),
                (''email'', JString ''icecube@gmail.com'')],
              JDict [(''id'', JInt 2), (''name'', JString ''MC Ren''),
                (''company'', JDict [(''name'', JString ''Ruthless_Records''), (''id'', JInt 1)]),
                (''email'', JString ''ren@hotmail.com'')]])]]))"
proof -
  have "those (map (projectTeam example_store) (get_team_by_name example_store ''NWA'')) =
    Some [JDict [(''id'', JInt 1), (''name'', JString ''NWA''),
          (''members'', JList
             [JDict [(''id'', JInt 1), (''name'', JString ''Ice Cube''),
                (''company'', JDict [(''name'', JString ''Ruthless_Records''), (''id'', JInt 1)]),
                (''email'', JString ''icecube@gmail.com'')],
              JDict [(''id'', JInt 2), (''name'', JString ''MC Ren''),
                (''company'', JDict [(''name'', JString ''Ruthless_Records''), (''id'', JInt 1)]),
                (''email'', JString ''ren@hotmail.com'')]])]]"
    by (simp add: project_simps get_team_by_name_def example_store_def members_def company_def)
  with projection_shapes [of dumps_plain _ example_store "[]" "get_team_by_name example_store ''NWA''"]
    example_store_ok
  show ?thesis by simp
qed

text \<open>
  Claim C5. In raw-document mode \<^verbatim>\<open>company_to_json\<close> and
  \<^verbatim>\<open>users_to_json\<close> never call the serializer; \<^verbatim>\<open>users_to_json\<close> embeds what
  \<^verbatim>\<open>company_to_json\<close> returns in that mode, and \<^verbatim>\<open>teams_to_json\<close> what
  \<^verbatim>\<open>users_to_json\<close> returns in that mode; and the text \<^verbatim>\<open>teams_to_json\<close>
  returns is the serializer applied once to a document that is the same for every
  serializer, so no serialized text stands inside it.
\<close>

theorem serialized_once:
  "company_to_json d co False = company_to_json d' co False \<and>
   users_to_json d db us False = users_to_json d' db us False \<and>
   users_to_json d db [u] False =
     (case company_to_json d (company db u) False of
        Inl e \<Rightarrow> Inl e
      | Inr company_doc \<Rightarrow>
          Inr (JList [JDict [(''id'', JInt (int (u_id u))), (''name'', u_name u),
                             (''company'', company_doc), (''email'', u_email u)]])) \<and>
   teams_to_json d db [t] =
     (case users_to_json d db (members db t) False of
        Inl e \<Rightarrow> Inl e
      | Inr members_doc \<Rightarrow>
          Inr (d (JList [JDict [(''id'', JInt (int (t_id t))), (''name'', t_name t),
                                (''members'', members_doc)]]))) \<and>
   (\<forall>out. teams_to_json d db ts = Inr out \<longrightarrow>
      (\<exists>doc. out = d doc \<and> (\<forall>d'. teams_to_json d' db ts = Inr (d' doc))))"
proof (intro conjI allI impI)
  show "company_to_json d co False = company_to_json d' co False"
    by (simp add: company_to_json_raw)
  show "users_to_json d db us False = users_to_json d' db us False"
    by (simp add: users_to_json_raw)
  show "users_to_json d db [u] False =
     (case company_to_json d (company db u) False of
        Inl e \<Rightarrow> Inl e
      | Inr company_doc \<Rightarrow>
          Inr (JList [JDict [(''id'', JInt (int (u_id u))), (''name'', u_name u),
                             (''company'', company_doc), (''email'', u_email u)]]))"
    by (simp add: users_to_json_def split: sum.splits)
  show "teams_to_json d db [t] =
     (case users_to_json d db (members db t) False of
        Inl e \<Rightarrow> Inl e
      | Inr members_doc \<Rightarrow>
          Inr (d (JList [JDict [(''id'', JInt (int (t_id t))), (''name'', t_name t),
                                (''members'', members_doc)]])))"
    by (simp add: teams_to_json_def split: sum.splits)
next
  fix out assume a: "teams_to_json d db ts = Inr out"
  then obtain docs where docs: "those (map (projectTeam db) ts) = Some docs"
    by (auto simp: teams_to_json_project split: option.splits)
  with a have "out = d (JList docs)" by (simp add: teams_to_json_project)
  moreover from docs have "\<forall>d'. teams_to_json d' db ts = Inr (d' (JList docs))"
    by (simp add: teams_to_json_project)
  ultimately show "\<exists>doc. out = d doc \<and> (\<forall>d'. teams_to_json d' db ts = Inr (d' doc))"
    by blast
qed

lemmas dumps_plain_simps = quoted_def int_text_def nat_digits.simps

theorem serialized_once_witness:
  \<open>teams_to_json dumps_plain example_store (get_team_by_name example_store ''GFUNK'') =
     Inr (''[{"id":2,"name":"GFUNK","members":['' @
          ''{"id":3,"name":"Warren G","company":{"name":"Def_Jam_Records","id":2},'' @
          ''"email":"warren@gmail.com"},'' @
          ''{"id":4,"name":"Nate Dogg","company":{"name":"Def_Jam_Records","id":2},'' @
          ''"email":"nate@gmail.com"}]}]'') \<and>
   (\<exists>doc. teams_to_json dumps_plain example_store (get_team_by_name example_store ''GFUNK'') =
            Inr (dumps_plain doc) \<and>
          (\<forall>d'. teams_to_json d' example_store (get_team_by_name example_store ''GFUNK'') =
                  Inr (d' doc)))\<close>
proof -
  have a: \<open>teams_to_json dumps_plain example_store (get_team_by_name example_store ''GFUNK'') =
     Inr (''[{"id":2,"name":"GFUNK","members":['' @
          ''{"id":3,"name":"Warren G","company":{"name":"Def_Jam_Records","id":2},'' @
          ''"email":"warren@gmail.com"},'' @
          ''{"id":4,"name":"Nate Dogg","company":{"name":"Def_Jam_Records","id":2},'' @
          ''"email":"nate@gmail.com"}]}]'')\<close>
    by (simp add: teams_to_json_project project_simps get_team_by_name_def example_store_def
        members_def company_def dumps_plain_simps)
  from serialized_once [of dumps_plain _ _ example_store "[]" _ _
      "get_team_by_name example_store ''GFUNK''"] a
  show ?thesis by blast
qed

section \<open>Properties of the ingestion layer\<close>

lemma fold_session_add_company:
  "distinct (map co_ref cs) \<Longrightarrow>
   set (map co_ref cs) \<inter> set (map co_ref (new_companies s)) = {} \<Longrightarrow>
   fold session_add_company cs s = s\<lparr>new_companies := new_companies s @ cs\<rparr>"
proof (induction cs arbitrary: s)
  case Nil
  then show ?case by simp
next
  case (Cons c cs)
  let ?s = "s\<lparr>new_companies := new_companies s @ [c]\<rparr>"
  from Cons.prems have step: "session_add_company c s = ?s"
    by (auto simp: session_add_company_def)
  from Cons.prems have "set (map co_ref cs) \<inter> set (map co_ref (new_companies ?s)) = {}"
    by auto
  with Cons.IH [of ?s] Cons.prems(1) step show ?case by simp
qed

lemma fold_session_add_user:
  "distinct (map uo_ref us) \<Longrightarrow>
   set (map uo_ref us) \<inter> set (map uo_ref (new_users s)) = {} \<Longrightarrow>
   fold session_add_user us s = s\<lparr>new_users := new_users s @ us\<rparr>"
proof (induction us arbitrary: s)
  case Nil
  then show ?case by simp
next
  case (Cons u us)
  let ?s = "s\<lparr>new_users := new_users s @ [u]\<rparr>"
  from Cons.prems have step: "session_add_user u s = ?s"
    by (auto simp: session_add_user_def)
  from Cons.prems have "set (map uo_ref us) \<inter> set (map uo_ref (new_users ?s)) = {}"
    by auto
  with Cons.IH [of ?s] Cons.prems(1) step show ?case by simp
qed

lemma company_in_fresh: "\<forall>c \<in> set cs. co_ref c < n \<Longrightarrow> \<not> company_in \<lparr>co_ref = n, co_name = v\<rparr> cs"
  by (auto simp: company_in_def company_eq_def)

lemma add_members_constructed:
  "list_all (\<lambda>m. member_fields m \<noteq> None) ms \<Longrightarrow> \<forall>c \<in> set cs. co_ref c < n \<Longrightarrow>
   add_members team ms cs us n =
     (Inr (), cs @ map fst (constructed team n ms), us @ map snd (constructed team n ms),
      n + 2 * length ms)"
proof (induction ms arbitrary: cs us n)
  case Nil
  then show ?case by simp
next
  case (Cons m ms)
  from Cons.prems(1) obtain cname uname uemail where
    f: "member_fields m = Some (cname, uname, uemail)" by auto
  then have sub: "subscript m ''company'' = Inr cname" "subscript m ''name'' = Inr uname"
    "subscript m ''email'' = Inr uemail"
    by (auto simp: member_fields_def split: sum.splits)
  let ?c = "\<lparr>co_ref = n, co_name = cname\<rparr>"
  have fresh: "\<not> company_in ?c cs" using Cons.prems(2) by (rule company_in_fresh)
  have "\<forall>c \<in> set (cs @ [?c]). co_ref c < Suc (Suc n)"
    using Cons.prems(2) by (auto simp: less_Suc_eq)
  from Cons.IH [OF _ this] Cons.prems(1) sub f fresh show ?case
    by simp
qed

lemma constructed_length:
  "list_all (\<lambda>m. member_fields m \<noteq> None) ms \<Longrightarrow> length (constructed team n ms) = length ms"
  by (induction ms arbitrary: n) auto

lemma constructed_co_ref:
  "p \<in> set (constructed team n ms) \<Longrightarrow> n \<le> co_ref (fst p) \<and> co_ref (fst p) < n + 2 * length ms"
proof (induction ms arbitrary: n)
  case Nil
  then show ?case by simp
next
  case (Cons m ms)
  then show ?case by (fastforce split: option.splits)
qed

lemma constructed_uo_ref:
  "p \<in> set (constructed team n ms) \<Longrightarrow> n < uo_ref (snd p) \<and> uo_ref (snd p) < n + 2 * length ms"
proof (induction ms arbitrary: n)
  case Nil
  then show ?case by simp
next
  case (Cons m ms)
  then show ?case by (fastforce split: option.splits)
qed

lemma constructed_distinct_co:
  "distinct (map (co_ref \<circ> fst) (constructed team n ms))"
proof (induction ms arbitrary: n)
  case Nil
  then show ?case by simp
next
  case (Cons m ms)
  then show ?case
    by (auto split: option.splits dest!: constructed_co_ref)
qed

lemma constructed_distinct_uo:
  "distinct (map (uo_ref \<circ> snd) (constructed team n ms))"
proof (induction ms arbitrary: n)
  case Nil
  then show ?case by simp
next
  case (Cons m ms)
  then show ?case
    by (auto split: option.splits dest!: constructed_uo_ref)
qed

lemma constructed_links:
  "p \<in> set (constructed team n ms) \<Longrightarrow>
   uo_company (snd p) = co_ref (fst p) \<and> uo_team (snd p) = team"
  by (induction ms arbitrary: n) (auto split: option.splits)

lemma constructed_fields:
  "list_all (\<lambda>m. member_fields m \<noteq> None) ms \<Longrightarrow>
   map (co_name \<circ> fst) (constructed team n ms) = map (\<lambda>m. field m ''company'') ms \<and>
   map (uo_name \<circ> snd) (constructed team n ms) = map (\<lambda>m. field m ''name'') ms \<and>
   map (uo_email \<circ> snd) (constructed team n ms) = map (\<lambda>m. field m ''email'') ms"
proof (induction ms arbitrary: n)
  case Nil
  then show ?case by simp
next
  case (Cons m ms)
  from Cons.prems obtain cname uname uemail where
    f: "member_fields m = Some (cname, uname, uemail)" by auto
  then have "field m ''company'' = cname" "field m ''name'' = uname" "field m ''email'' = uemail"
    by (auto simp: member_fields_def field_def split: sum.splits)
  with Cons f show ?case by simp
qed

lemma add_post_json_success:
  assumes ok: "session_ok s"
    and name: "map_of items ''name'' = Some tname"
    and mems: "map_of items ''members'' = Some (JList ms)"
    and fields: "list_all (\<lambda>m. member_fields m \<noteq> None) ms"
  shows "add_post_json (JDict items) s =
     (Inr (),
      \<lparr>s_db = s_db s,
       new_teams = new_teams s @ [\<lparr>to_ref = next_ref s, to_name = tname\<rparr>],
       new_companies =
         new_companies s @ map fst (constructed (next_ref s) (Suc (next_ref s)) ms),
       new_users = new_users s @ map snd (constructed (next_ref s) (Suc (next_ref s)) ms),
       next_ref = Suc (next_ref s) + 2 * length ms\<rparr>)"
proof -
  let ?r = "next_ref s"
  let ?cons = "constructed ?r (Suc ?r) ms"
  let ?team = "\<lparr>to_ref = ?r, to_name = tname\<rparr>"
  let ?s2 = "s\<lparr>next_ref := Suc (?r + 2 * length ms)\<rparr>"
  let ?s3 = "?s2\<lparr>new_teams := new_teams s @ [?team]\<rparr>"
  let ?s4 = "?s3\<lparr>new_companies := new_companies s @ map fst ?cons\<rparr>"
  have loop: "add_members ?r ms [] [] (Suc ?r) =
      (Inr (), map fst ?cons, map snd ?cons, Suc (?r + 2 * length ms))"
    using add_members_constructed [OF fields, of "[]" "Suc ?r" ?r "[]"] by simp
  have team: "session_add_team ?team ?s2 = ?s3"
    using ok by (auto simp: session_add_team_def session_ok_def list_all_iff)
  have "set (map co_ref (map fst ?cons)) \<inter> set (map co_ref (new_companies ?s3)) = {}"
    using ok by (fastforce simp: session_ok_def list_all_iff dest: constructed_co_ref)
  with fold_session_add_company [of "map fst ?cons" ?s3] constructed_distinct_co [of ?r "Suc ?r" ms]
  have comp: "fold session_add_company (map fst ?cons) ?s3 = ?s4" by simp
  have "set (map uo_ref (map snd ?cons)) \<inter> set (map uo_ref (new_users ?s4)) = {}"
    using ok by (fastforce simp: session_ok_def list_all_iff dest: constructed_uo_ref)
  with fold_session_add_user [of "map snd ?cons" ?s4] constructed_distinct_uo [of ?r "Suc ?r" ms]
  have user: "fold session_add_user (map snd ?cons) ?s4 =
      ?s4\<lparr>new_users := new_users s @ map snd ?cons\<rparr>" by simp
  have "add_post_json (JDict items) s =
      (Inr (), fold session_add_user (map snd ?cons)
                 (fold session_add_company (map fst ?cons) (session_add_team ?team ?s2)))"
    by (simp add: add_post_json_def name mems loop)
  also have "\<dots> = (Inr (), ?s4\<lparr>new_users := new_users s @ map snd ?cons\<rparr>)"
    by (simp only: team comp user)
  finally show ?thesis by simp
qed

lemma add_post_json_error_keeps:
  assumes "add_post_json json_data s = (Inl e, s')"
  shows "s_db s' = s_db s \<and> new_teams s' = new_teams s \<and>
         new_companies s' = new_companies s \<and> new_users s' = new_users s"
  using assms
  by (auto simp: add_post_json_def Let_def split: sum.splits prod.splits)

lemma add_members_missing:
  assumes "list_all (\<lambda>m. member_fields m \<noteq> None) pre"
    and "first_missing mitems = Some k"
  shows "fst (add_members team (pre @ JDict mitems # post) cs us n) = Inl (KeyError k)"
  using assms(1)
proof (induction pre arbitrary: cs us n)
  case Nil
  from assms(2) show ?case
    by (auto simp: first_missing_def Let_def split: if_splits option.splits)
next
  case (Cons m pre)
  from Cons.prems obtain cname uname uemail where
    f: "member_fields m = Some (cname, uname, uemail)" by auto
  then have sub: "subscript m ''company'' = Inr cname" "subscript m ''name'' = Inr uname"
    "subscript m ''email'' = Inr uemail"
    by (auto simp: member_fields_def split: sum.splits)
  from Cons.prems have "list_all (\<lambda>m. member_fields m \<noteq> None) pre" by simp
  from Cons.IH [OF this] sub show ?case by (simp add: Let_def)
qed

lemma commit_companies:
  "companies_tbl (s_db (commit s)) =
     companies_tbl (s_db s) @
     map (\<lambda>(i, c). \<lparr>c_id = i, c_name = co_name c\<rparr>)
       (enumerate (fresh_id (map c_id (companies_tbl (s_db s)))) (new_companies s))"
  by (simp add: commit_def Let_def)

lemma new_session_ok: "session_ok (new_session d)"
  by (simp add: session_ok_def new_session_def)

lemma add_team_success:
  assumes "map_of items ''name'' = Some tname"
    and "map_of items ''members'' = Some (JList ms)"
    and "list_all (\<lambda>m. member_fields m \<noteq> None) ms"
  shows "add_team (JDict items) d =
     (Inr ''Added Team'',
      s_db (commit \<lparr>s_db = d, new_teams = [\<lparr>to_ref = 0, to_name = tname\<rparr>],
                    new_companies = map fst (constructed 0 (Suc 0) ms),
                    new_users = map snd (constructed 0 (Suc 0) ms),
                    next_ref = Suc (2 * length ms)\<rparr>))"
  using add_post_json_success [OF new_session_ok assms, of d]
  by (simp add: add_team_def new_session_def)

text \<open>
  Claim C9. When the document has a name and a list of members that each have the three
  fields, \<^verbatim>\<open>add_post_json\<close> returns normally and has added to the session one
  new Company object per member entry: as many as there are entries, with the entries'
  company names in order, pairwise distinct objects, none of them an object that existed
  before the call. For a document of the input contract, the commit of the route then
  adds that many company rows.
\<close>

theorem one_company_per_member:
  assumes "session_ok s"
    and "map_of items ''name'' = Some tname"
    and "map_of items ''members'' = Some (JList ms)"
    and "list_all (\<lambda>m. member_fields m \<noteq> None) ms"
  shows "fst (add_post_json (JDict items) s) = Inr () \<and>
    (\<exists>cs. new_companies (snd (add_post_json (JDict items) s)) = new_companies s @ cs \<and>
          length cs = length ms \<and>
          map co_name cs = map (\<lambda>m. field m ''company'') ms \<and>
          distinct (map co_ref cs) \<and>
          (\<forall>c \<in> set cs. next_ref s \<le> co_ref c)) \<and>
    (is_string tname \<and> list_all member_ok ms \<longrightarrow>
       length (companies_tbl (snd (add_team (JDict items) d))) =
         length (companies_tbl d) + length ms)"
proof -
  let ?cs = "map fst (constructed (next_ref s) (Suc (next_ref s)) ms)"
  note eq = add_post_json_success [OF assms]
  have 1: "length ?cs = length ms" using assms(4) by (simp add: constructed_length)
  have 2: "map co_name ?cs = map (\<lambda>m. field m ''company'') ms"
    using constructed_fields [OF assms(4), of "next_ref s" "Suc (next_ref s)"] by simp
  have 3: "distinct (map co_ref ?cs)"
    using constructed_distinct_co [of "next_ref s" "Suc (next_ref s)" ms] by simp
  have 4: "\<forall>c \<in> set ?cs. next_ref s \<le> co_ref c"
    by (fastforce dest: constructed_co_ref)
  have 5: "length (companies_tbl (snd (add_team (JDict items) d))) =
      length (companies_tbl d) + length ms"
    using assms(4) by (simp add: add_team_success [OF assms(2-4)] commit_companies constructed_length)
  from eq 1 2 3 4 5 show ?thesis by simp
qed

lemmas ingest_simps = add_post_json_def new_session_def nwa_document_def company_in_def
  company_eq_def session_add_team_def session_add_company_def session_add_user_def Let_def

theorem one_company_per_member_witness:
  "session_ok (new_session example_store) \<and>
   add_post_json nwa_document (new_session example_store) =
     (Inr (),
      \<lparr>s_db = example_store,
       new_teams = [\<lparr>to_ref = 0, to_name = JString ''NWA''\<rparr>],
       new_companies = [\<lparr>co_ref = 1, co_name = JString ''Ruthless_Records''\<rparr>,
                        \<lparr>co_ref = 3, co_name = JString ''Ruthless_Records''\<rparr>],
       new_users = [\<lparr>uo_ref = 2, uo_name = JString ''Ice Cube'',
                      uo_email = JString ''icecube@gmail.com'', uo_company = 1, uo_team = 0\<rparr>,
                    \<lparr>uo_ref = 4, uo_name = JString ''MC Ren'',
                      uo_email = JString ''ren@hotmail.com'', uo_company = 3, uo_team = 0\<rparr>],
       next_ref = 5\<rparr>) \<and>
   length (companies_tbl (snd (add_team nwa_document example_store))) =
     length (companies_tbl example_store) + 2"
proof -
  have a: "add_post_json nwa_document (new_session example_store) =
     (Inr (),
      \<lparr>s_db = example_store,
       new_teams = [\<lparr>to_ref = 0, to_name = JString ''NWA''\<rparr>],
       new_companies = [\<lparr>co_ref = 1, co_name = JString ''Ruthless_Records''\<rparr>,
                        \<lparr>co_ref = 3, co_name = JString ''Ruthless_Records''\<rparr>],
       new_users = [\<lparr>uo_ref = 2, uo_name = JString ''Ice Cube'',
                      uo_email = JString ''icecube@gmail.com'', uo_company = 1, uo_team = 0\<rparr>,
                    \<lparr>uo_ref = 4, uo_name = JString ''MC Ren'',
                      uo_email = JString ''ren@hotmail.com'', uo_company = 3, uo_team = 0\<rparr>],
       next_ref = 5\<rparr>)"
    by (simp add: ingest_simps)
  have f: "list_all (\<lambda>m. member_fields m \<noteq> None)
     [JDict [(''name'', JString ''Ice Cube''), (''email'', JString ''icecube@gmail.com''),
             (''company'', JString ''Ruthless_Records'')],
      JDict [(''name'', JString ''MC Ren''), (''email'', JString ''ren@hotmail.com''),
             (''company'', JString ''Ruthless_Records'')]]"
    by (simp add: member_fields_def)
  from one_company_per_member [where s = "new_session example_store" and d = example_store
      and tname = "JString ''NWA''" and items =
      "[(''name'', JString ''NWA''),
        (''members'', JList
           [JDict [(''name'', JString ''Ice Cube''), (''email'', JString ''icecube@gmail.com''),
                   (''company'', JString ''Ruthless_Records'')],
            JDict [(''name'', JString ''MC Ren''), (''email'', JString ''ren@hotmail.com''),
                   (''company'', JString ''Ruthless_Records'')]])]",
      OF new_session_ok _ _ f]
  have "length (companies_tbl (snd (add_team nwa_document example_store))) =
     length (companies_tbl example_store) + 2"
    by (simp add: nwa_document_def member_ok_def member_fields_def)
  with a new_session_ok show ?thesis by simp
qed

lemma nwa_members_fields:
  "list_all (\<lambda>m. member_fields m \<noteq> None)
     [JDict [(''name'', JString ''Ice Cube''), (''email'', JString ''icecube@gmail.com''),
             (''company'', JString ''Ruthless_Records'')],
      JDict [(''name'', JString ''MC Ren''), (''email'', JString ''ren@hotmail.com''),
             (''company'', JString ''Ruthless_Records'')]]"
  by (simp add: member_fields_def)

text \<open>
  Claim C2. Let \<open>cs\<close> be the Company objects one call constructs, in order (the
  users it adds hold them). The object constructed for member \<open>i\<close> is in the session
  after the call exactly when no object constructed earlier in the call is equal to it
  under \<open>company_eq\<close>. The store is not changed by the call, and the companies in the
  session after it are the same whatever the store holds.
\<close>

theorem company_staged_iff_not_seen:
  assumes "session_ok s"
    and "map_of items ''name'' = Some tname"
    and "map_of items ''members'' = Some (JList ms)"
    and "list_all (\<lambda>m. member_fields m \<noteq> None) ms"
  shows "let cs = map fst (constructed (next_ref s) (Suc (next_ref s)) ms);
             s' = snd (add_post_json (JDict items) s)
         in (\<exists>us. new_users s' = new_users s @ us \<and> map uo_company us = map co_ref cs) \<and>
            (\<forall>i < length cs.
               (cs ! i \<in> set (new_companies s')) =
               (\<not> (\<exists>j < i. company_eq (cs ! j) (cs ! i)))) \<and>
            s_db s' = s_db s \<and>
            (\<forall>d. new_companies (snd (add_post_json (JDict items) (s\<lparr>s_db := d\<rparr>))) =
                 new_companies s')"
proof -
  let ?cons = "constructed (next_ref s) (Suc (next_ref s)) ms"
  let ?cs = "map fst ?cons"
  let ?s' = "snd (add_post_json (JDict items) s)"
  note eq = add_post_json_success [OF assms]
  have "map uo_company (map snd ?cons) = map co_ref ?cs"
    by (auto dest: constructed_links)
  with eq have 1: "\<exists>us. new_users ?s' = new_users s @ us \<and> map uo_company us = map co_ref ?cs"
    by simp
  have d: "distinct (map co_ref ?cs)"
    using constructed_distinct_co [of "next_ref s" "Suc (next_ref s)" ms] by simp
  have 2: "\<forall>i < length ?cs.
      (?cs ! i \<in> set (new_companies ?s')) = (\<not> (\<exists>j < i. company_eq (?cs ! j) (?cs ! i)))"
  proof (intro allI impI)
    fix i assume i: "i < length ?cs"
    from nth_mem [OF i] eq have "?cs ! i \<in> set (new_companies ?s')" by simp
    moreover have "\<not> (\<exists>j < i. company_eq (?cs ! j) (?cs ! i))"
    proof
      assume "\<exists>j < i. company_eq (?cs ! j) (?cs ! i)"
      then obtain j where j: "j < i" "co_ref (?cs ! j) = co_ref (?cs ! i)"
        by (auto simp: company_eq_def)
      with i have "map co_ref ?cs ! j = map co_ref ?cs ! i" "j < length (map co_ref ?cs)"
        "i < length (map co_ref ?cs)" by simp_all
      with d have "j = i" by (simp only: nth_eq_iff_index_eq)
      with j(1) show False by simp
    qed
    ultimately show "(?cs ! i \<in> set (new_companies ?s')) =
        (\<not> (\<exists>j < i. company_eq (?cs ! j) (?cs ! i)))" by simp
  qed
  have 3: "s_db ?s' = s_db s" using eq by simp
  have 4: "\<forall>d. new_companies (snd (add_post_json (JDict items) (s\<lparr>s_db := d\<rparr>))) =
      new_companies ?s'"
  proof
    fix d
    have "session_ok (s\<lparr>s_db := d\<rparr>)" using assms(1) by (simp add: session_ok_def)
    from add_post_json_success [OF this assms(2-4)] eq
    show "new_companies (snd (add_post_json (JDict items) (s\<lparr>s_db := d\<rparr>))) =
      new_companies ?s'" by simp
  qed
  from 1 2 3 4 show ?thesis by (simp only: Let_def) blast
qed

theorem company_staged_iff_not_seen_witness:
  "session_ok (new_session example_store) \<and>
   constructed 0 1
     [JDict [(''name'', JString ''Ice Cube''), (''email'', JString ''icecube@gmail.com''),
             (''company'', JString ''Ruthless_Records'')],
      JDict [(''name'', JString ''MC Ren''), (''email'', JString ''ren@hotmail.com''),
             (''company'', JString ''Ruthless_Records'')]] =
     [(\<lparr>co_ref = 1, co_name = JString ''Ruthless_Records''\<rparr>,
       \<lparr>uo_ref = 2, uo_name = JString ''Ice Cube'', uo_email = JString ''icecube@gmail.com'',
        uo_company = 1, uo_team = 0\<rparr>),
      (\<lparr>co_ref = 3, co_name = JString ''Ruthless_Records''\<rparr>,
       \<lparr>uo_ref = 4, uo_name = JString ''MC Ren'', uo_email = JString ''ren@hotmail.com'',
        uo_company = 3, uo_team = 0\<rparr>)] \<and>
   new_companies (snd (add_post_json nwa_document (new_session example_store))) =
     [\<lparr>co_ref = 1, co_name = JString ''Ruthless_Records''\<rparr>,
      \<lparr>co_ref = 3, co_name = JString ''Ruthless_Records''\<rparr>] \<and>
   \<not> company_eq \<lparr>co_ref = 1, co_name = JString ''Ruthless_Records''\<rparr>
                 \<lparr>co_ref = 3, co_name = JString ''Ruthless_Records''\<rparr> \<and>
   s_db (snd (add_post_json nwa_document (new_session example_store))) = example_store"
proof -
  have a: "new_companies (snd (add_post_json nwa_document (new_session example_store))) =
     [\<lparr>co_ref = 1, co_name = JString ''Ruthless_Records''\<rparr>,
      \<lparr>co_ref = 3, co_name = JString ''Ruthless_Records''\<rparr>]"
    by (simp add: ingest_simps)
  have b: "constructed 0 1
     [JDict [(''name'', JString ''Ice Cube''), (''email'', JString ''icecube@gmail.com''),
             (''company'', JString ''Ruthless_Records'')],
      JDict [(''name'', JString ''MC Ren''), (''email'', JString ''ren@hotmail.com''),
             (''company'', JString ''Ruthless_Records'')]] =
     [(\<lparr>co_ref = 1, co_name = JString ''Ruthless_Records''\<rparr>,
       \<lparr>uo_ref = 2, uo_name = JString ''Ice Cube'', uo_email = JString ''icecube@gmail.com'',
        uo_company = 1, uo_team = 0\<rparr>),
      (\<lparr>co_ref = 3, co_name = JString ''Ruthless_Records''\<rparr>,
       \<lparr>uo_ref = 4, uo_name = JString ''MC Ren'', uo_email = JString ''ren@hotmail.com'',
        uo_company = 3, uo_team = 0\<rparr>)]"
    by (simp add: member_fields_def)
  have c: "\<not> company_eq \<lparr>co_ref = 1, co_name = JString ''Ruthless_Records''\<rparr>
                 \<lparr>co_ref = 3, co_name = JString ''Ruthless_Records''\<rparr>"
    by (simp add: company_eq_def)
  from company_staged_iff_not_seen [where s = "new_session example_store"
      and tname = "JString ''NWA''" and items =
      "[(''name'', JString ''NWA''),
        (''members'', JList
           [JDict [(''name'', JString ''Ice Cube''), (''email'', JString ''icecube@gmail.com''),
                   (''company'', JString ''Ruthless_Records'')],
            JDict [(''name'', JString ''MC Ren''), (''email'', JString ''ren@hotmail.com''),
                   (''company'', JString ''Ruthless_Records'')]])]",
      OF new_session_ok _ _ nwa_members_fields]
  have "s_db (snd (add_post_json nwa_document (new_session example_store))) = example_store"
    by (simp add: nwa_document_def Let_def new_session_def)
  with a b c new_session_ok show ?thesis by simp
qed

text \<open>
  Claim C8. A document without the key name fails with KeyError name; one with name but
  without members fails with KeyError members; one whose members are a list in which
  the first entry that lacks a field is a dict fails with the KeyError of the first key,
  in reading order (company, name, email), that this entry lacks. Whenever
  \<^verbatim>\<open>add_post_json\<close> raises, the store and the objects added to the session are
  what they were before the call, and the route leaves the store unchanged.
\<close>

theorem missing_field_fails_unstaged:
  "(map_of items ''name'' = None \<longrightarrow>
      fst (add_post_json (JDict items) s) = Inl (KeyError ''name'')) \<and>
   (map_of items ''name'' \<noteq> None \<and> map_of items ''members'' = None \<longrightarrow>
      fst (add_post_json (JDict items) s) = Inl (KeyError ''members'')) \<and>
   (map_of items ''name'' \<noteq> None \<and>
    map_of items ''members'' = Some (JList (pre @ JDict mitems # post)) \<and>
    list_all (\<lambda>m. member_fields m \<noteq> None) pre \<and> first_missing mitems = Some k \<longrightarrow>
      fst (add_post_json (JDict items) s) = Inl (KeyError k)) \<and>
   (\<forall>e. fst (add_post_json json_data s) = Inl e \<longrightarrow>
      s_db (snd (add_post_json json_data s)) = s_db s \<and>
      new_teams (snd (add_post_json json_data s)) = new_teams s \<and>
      new_companies (snd (add_post_json json_data s)) = new_companies s \<and>
      new_users (snd (add_post_json json_data s)) = new_users s) \<and>
   (\<forall>e. fst (add_post_json json_data (new_session d)) = Inl e \<longrightarrow>
      add_team json_data d = (Inl e, d))"
proof (intro conjI allI impI)
  assume "map_of items ''name'' = None"
  then show "fst (add_post_json (JDict items) s) = Inl (KeyError ''name'')"
    by (simp add: add_post_json_def)
next
  assume "map_of items ''name'' \<noteq> None \<and> map_of items ''members'' = None"
  then show "fst (add_post_json (JDict items) s) = Inl (KeyError ''members'')"
    by (auto simp: add_post_json_def)
next
  assume a: "map_of items ''name'' \<noteq> None \<and>
    map_of items ''members'' = Some (JList (pre @ JDict mitems # post)) \<and>
    list_all (\<lambda>m. member_fields m \<noteq> None) pre \<and> first_missing mitems = Some k"
  then have "fst (add_members (next_ref s) (pre @ JDict mitems # post) [] [] (Suc (next_ref s))) =
      Inl (KeyError k)"
    by (simp add: add_members_missing)
  then obtain cs' us' n' where
    "add_members (next_ref s) (pre @ JDict mitems # post) [] [] (Suc (next_ref s)) =
       (Inl (KeyError k), cs', us', n')"
    by (cases "add_members (next_ref s) (pre @ JDict mitems # post) [] [] (Suc (next_ref s))") auto
  with a show "fst (add_post_json (JDict items) s) = Inl (KeyError k)"
    by (auto simp: add_post_json_def Let_def)
next
  fix e assume "fst (add_post_json json_data s) = Inl e"
  then have "add_post_json json_data s = (Inl e, snd (add_post_json json_data s))"
    by (simp add: prod_eq_iff)
  from add_post_json_error_keeps [OF this]
  show "s_db (snd (add_post_json json_data s)) = s_db s"
    "new_teams (snd (add_post_json json_data s)) = new_teams s"
    "new_companies (snd (add_post_json json_data s)) = new_companies s"
    "new_users (snd (add_post_json json_data s)) = new_users s"
    by simp_all
next
  fix e assume "fst (add_post_json json_data (new_session d)) = Inl e"
  then show "add_team json_data d = (Inl e, d)"
    by (cases "add_post_json json_data (new_session d)") (simp add: add_team_def)
qed

theorem missing_field_fails_unstaged_witness:
  "first_missing [(''name'', JString ''MC Ren''), (''company'', JString ''Ruthless_Records'')] =
     Some ''email'' \<and>
   add_post_json broken_document (new_session example_store) =
     (Inl (KeyError ''email''), (new_session example_store)\<lparr>next_ref := 4\<rparr>) \<and>
   add_team broken_document example_store = (Inl (KeyError ''email''), example_store) \<and>
   fst (add_post_json (JDict [(''members'', JList [])]) (new_session example_store)) =
     Inl (KeyError ''name'') \<and>
   fst (add_post_json (JDict [(''name'', JString ''NWA'')]) (new_session example_store)) =
     Inl (KeyError ''members'')"
proof -
  have m: "first_missing [(''name'', JString ''MC Ren''),
      (''company'', JString ''Ruthless_Records'')] = Some ''email''"
    by (simp add: first_missing_def)
  have f: "list_all (\<lambda>m. member_fields m \<noteq> None)
     [JDict [(''name'', JString ''Ice Cube''), (''email'', JString ''icecube@gmail.com''),
             (''company'', JString ''Ruthless_Records'')]]"
    by (simp add: member_fields_def)
  have a: "snd (add_post_json broken_document (new_session example_store)) =
     (new_session example_store)\<lparr>next_ref := 4\<rparr>"
    by (simp add: ingest_simps broken_document_def)
  from missing_field_fails_unstaged [where json_data = broken_document and d = example_store
      and s = "new_session example_store" and k = "''email''" and post = "[]"
      and mitems = "[(''name'', JString ''MC Ren''), (''company'', JString ''Ruthless_Records'')]"
      and pre = "[JDict [(''name'', JString ''Ice Cube''),
                         (''email'', JString ''icecube@gmail.com''),
                         (''company'', JString ''Ruthless_Records'')]]"
      and items = "[(''name'', JString ''NWA''),
            (''members'', JList
               [JDict [(''name'', JString ''Ice Cube''), (''email'', JString ''icecube@gmail.com''),
                       (''company'', JString ''Ruthless_Records'')],
                JDict [(''name'', JString ''MC Ren''),
                       (''company'', JString ''Ruthless_Records'')]])]"] m f
  have b: "fst (add_post_json broken_document (new_session example_store)) =
      Inl (KeyError ''email'')"
    by (simp add: broken_document_def)
  from missing_field_fails_unstaged [where json_data = broken_document and d = example_store
      and s = "new_session example_store" and items = "[(''members'', JList [])]"] b
  have c: "add_team broken_document example_store = (Inl (KeyError ''email''), example_store)"
    "fst (add_post_json (JDict [(''members'', JList [])]) (new_session example_store)) =
       Inl (KeyError ''name'')"
    by simp_all
  from missing_field_fails_unstaged [where s = "new_session example_store"
      and items = "[(''name'', JString ''NWA'')]"]
  have d: "fst (add_post_json (JDict [(''name'', JString ''NWA'')]) (new_session example_store)) =
       Inl (KeyError ''members'')"
    by simp
  from a b have "add_post_json broken_document (new_session example_store) =
     (Inl (KeyError ''email''), (new_session example_store)\<lparr>next_ref := 4\<rparr>)"
    by (simp add: prod_eq_iff)
  with m c d show ?thesis by simp
qed

section \<open>Ingestion, commit and lookup by name\<close>

lemma fresh_id_greater: "i \<in> set ids \<Longrightarrow> i < fresh_id ids"
proof -
  assume "i \<in> set ids"
  then have "i \<le> Max (set (0 # ids))" by (intro Max_ge) auto
  also have "Max (set (0 # ids)) = fold max ids 0" by (rule Max.set_eq_fold)
  finally show ?thesis by (simp add: fresh_id_def)
qed

lemma member_ok_fields: "list_all member_ok ms \<Longrightarrow> list_all (\<lambda>m. member_fields m \<noteq> None) ms"
  by (auto simp: list_all_iff member_ok_def split: option.splits)

lemma vals_enumerate:
  "map (\<lambda>(i, x). f x) (enumerate k xs) = map f xs"
  by (induction xs arbitrary: k) simp_all

lemma commit_new_session:
  "s_db (commit \<lparr>s_db = d, new_teams = [\<lparr>to_ref = 0, to_name = tname\<rparr>],
                 new_companies = map fst cons, new_users = map snd cons, next_ref = r\<rparr>) =
   \<lparr>teams_tbl = teams_tbl d @ [\<lparr>t_id = fresh_id (map t_id (teams_tbl d)), t_name = tname\<rparr>],
    users_tbl = users_tbl d @
      map (\<lambda>(i, u). \<lparr>u_id = i, u_name = uo_name u, u_email = uo_email u,
                     u_team_id = (if uo_team u = 0 then Some (fresh_id (map t_id (teams_tbl d))) else None),
                     u_company_id =
                       map_of (map (\<lambda>(i, c). (co_ref c, i))
                                 (enumerate (fresh_id (map c_id (companies_tbl d))) (map fst cons)))
                         (uo_company u)\<rparr>)
        (enumerate (fresh_id (map u_id (users_tbl d))) (map snd cons)),
    companies_tbl = companies_tbl d @
      map (\<lambda>(i, c). \<lparr>c_id = i, c_name = co_name c\<rparr>)
        (enumerate (fresh_id (map c_id (companies_tbl d))) (map fst cons))\<rparr>"
  by (simp add: commit_def Let_def fun_eq_iff)

lemma enumerate_snd_mem: "p \<in> set (enumerate k xs) \<Longrightarrow> snd p \<in> set xs"
  by (cases p) (auto simp: enumerate_eq_zip dest: set_zip_rightD)

lemma store_ok_team_key:
  assumes "store_ok db" and "u \<in> set (users_tbl db)"
  shows "\<exists>tid. u_team_id u = Some tid \<and> tid \<in> set (map t_id (teams_tbl db))"
proof -
  from assms have "case u_team_id u of None \<Rightarrow> False
                   | Some tid \<Rightarrow> tid \<in> set (map t_id (teams_tbl db))"
    by (simp add: store_ok_def list_all_iff)
  then show ?thesis by (cases "u_team_id u") simp_all
qed

lemma store_ok_extend:
  assumes ok: "store_ok d"
    and t: "distinct (map t_id (teams_tbl d @ nt))"
    and c: "distinct (map c_id (companies_tbl d @ nc))"
    and u: "distinct (map u_id (users_tbl d @ nu))"
    and fk: "\<forall>r \<in> set nu.
        (\<exists>tid. u_team_id r = Some tid \<and> tid \<in> set (map t_id (teams_tbl d @ nt))) \<and>
        (\<exists>cid. u_company_id r = Some cid \<and> cid \<in> set (map c_id (companies_tbl d @ nc)))"
  shows "store_ok \<lparr>teams_tbl = teams_tbl d @ nt, users_tbl = users_tbl d @ nu,
                   companies_tbl = companies_tbl d @ nc\<rparr>"
proof -
  let ?d' = "\<lparr>teams_tbl = teams_tbl d @ nt, users_tbl = users_tbl d @ nu,
             companies_tbl = companies_tbl d @ nc\<rparr>"
  have sel: "teams_tbl ?d' = teams_tbl d @ nt" "users_tbl ?d' = users_tbl d @ nu"
    "companies_tbl ?d' = companies_tbl d @ nc" by simp_all
  have old: "\<forall>r \<in> set (users_tbl d).
        (\<exists>tid. u_team_id r = Some tid \<and> tid \<in> set (map t_id (teams_tbl d @ nt))) \<and>
        (\<exists>cid. u_company_id r = Some cid \<and> cid \<in> set (map c_id (companies_tbl d @ nc)))"
  proof
    fix r assume r: "r \<in> set (users_tbl d)"
    from store_ok_team_key [OF ok r] store_ok_company_key [OF ok r]
    show "(\<exists>tid. u_team_id r = Some tid \<and> tid \<in> set (map t_id (teams_tbl d @ nt))) \<and>
        (\<exists>cid. u_company_id r = Some cid \<and> cid \<in> set (map c_id (companies_tbl d @ nc)))"
      by auto
  qed
  have "\<forall>r \<in> set (users_tbl d @ nu).
      (case u_team_id r of None \<Rightarrow> False
       | Some tid \<Rightarrow> tid \<in> set (map t_id (teams_tbl d @ nt))) \<and>
      (case u_company_id r of None \<Rightarrow> False
       | Some cid \<Rightarrow> cid \<in> set (map c_id (companies_tbl d @ nc)))"
  proof
    fix r assume "r \<in> set (users_tbl d @ nu)"
    with old fk have
      "(\<exists>tid. u_team_id r = Some tid \<and> tid \<in> set (map t_id (teams_tbl d @ nt))) \<and>
       (\<exists>cid. u_company_id r = Some cid \<and> cid \<in> set (map c_id (companies_tbl d @ nc)))"
      by auto
    then show "(case u_team_id r of None \<Rightarrow> False
       | Some tid \<Rightarrow> tid \<in> set (map t_id (teams_tbl d @ nt))) \<and>
      (case u_company_id r of None \<Rightarrow> False
       | Some cid \<Rightarrow> cid \<in> set (map c_id (companies_tbl d @ nc)))"
      by auto
  qed
  with t c u show ?thesis
    unfolding store_ok_def list_all_iff sel by blast
qed

lemma distinct_fresh_ids:
  assumes "distinct ids"
  shows "distinct (ids @ [fresh_id ids..<fresh_id ids + n])"
  using assms by (auto dest: fresh_id_greater)

lemma company_key_found:
  assumes "r \<in> set (map co_ref cs)"
  shows "\<exists>cid. map_of (map (\<lambda>(i, c). (co_ref c, i)) (enumerate k cs)) r = Some cid \<and>
               cid \<in> set [k..<k + length cs]"
proof -
  let ?kv = "map (\<lambda>(i, c). (co_ref c, i)) (enumerate k cs)"
  have keys: "map fst ?kv = map co_ref cs"
    by (induction cs arbitrary: k) simp_all
  from assms have "r \<in> set (map fst ?kv)" by (simp only: keys)
  then have "r \<in> fst ` set ?kv" by (simp only: set_map)
  then have "map_of ?kv r \<noteq> None" by (simp only: map_of_eq_None_iff not_not)
  then obtain cid where cid: "map_of ?kv r = Some cid" by auto
  then have "(r, cid) \<in> set ?kv" by (rule map_of_SomeD)
  then obtain c where "(cid, c) \<in> set (enumerate k cs)" by auto
  then have "cid \<in> set (map fst (enumerate k cs))" by (metis fst_conv image_eqI set_map)
  then have "cid \<in> set [k..<k + length cs]" by (simp only: map_fst_enumerate)
  with cid show ?thesis by blast
qed

lemma add_team_store:
  assumes ok: "store_ok d"
    and name: "map_of items ''name'' = Some tname"
    and mems: "map_of items ''members'' = Some (JList ms)"
    and fields: "list_all (\<lambda>m. member_fields m \<noteq> None) ms"
  shows "\<exists>d' nu.
     add_team (JDict items) d = (Inr ''Added Team'', d') \<and>
     teams_tbl d' =
       teams_tbl d @ [\<lparr>t_id = fresh_id (map t_id (teams_tbl d)), t_name = tname\<rparr>] \<and>
     users_tbl d' = users_tbl d @ nu \<and>
     (\<forall>r \<in> set nu. u_team_id r = Some (fresh_id (map t_id (teams_tbl d)))) \<and>
     map u_name nu = map (\<lambda>m. field m ''name'') ms \<and>
     map u_email nu = map (\<lambda>m. field m ''email'') ms \<and>
     store_ok d'"
proof -
  let ?cons = "constructed 0 (Suc 0) ms"
  let ?tid = "fresh_id (map t_id (teams_tbl d))"
  let ?cid = "fresh_id (map c_id (companies_tbl d))"
  let ?uid = "fresh_id (map u_id (users_tbl d))"
  let ?key = "map_of (map (\<lambda>(i, c). (co_ref c, i)) (enumerate ?cid (map fst ?cons)))"
  let ?row = "\<lambda>(i, u). \<lparr>u_id = i, u_name = uo_name u, u_email = uo_email u,
                 u_team_id = (if uo_team u = 0 then Some ?tid else None),
                 u_company_id = ?key (uo_company u)\<rparr>"
  let ?nt = "[\<lparr>t_id = ?tid, t_name = tname\<rparr>]"
  let ?nu = "map ?row (enumerate ?uid (map snd ?cons))"
  let ?nc = "map (\<lambda>(i, c). \<lparr>c_id = i, c_name = co_name c\<rparr>) (enumerate ?cid (map fst ?cons))"
  let ?d' = "\<lparr>teams_tbl = teams_tbl d @ ?nt, users_tbl = users_tbl d @ ?nu,
             companies_tbl = companies_tbl d @ ?nc\<rparr>"
  have run: "add_team (JDict items) d = (Inr ''Added Team'', ?d')"
    by (simp only: add_team_success [OF name mems fields] commit_new_session)
  have links: "\<And>p. p \<in> set (enumerate ?uid (map snd ?cons)) \<Longrightarrow>
      uo_team (snd p) = 0 \<and> uo_company (snd p) \<in> set (map co_ref (map fst ?cons))"
  proof -
    fix p assume "p \<in> set (enumerate ?uid (map snd ?cons))"
    then have "snd p \<in> set (map snd ?cons)" by (rule enumerate_snd_mem)
    then obtain q where q: "q \<in> set ?cons" "snd p = snd q" by auto
    from constructed_links [OF q(1)] q
    show "uo_team (snd p) = 0 \<and> uo_company (snd p) \<in> set (map co_ref (map fst ?cons))"
      by auto
  qed
  have team_fk: "\<forall>r \<in> set ?nu. u_team_id r = Some ?tid"
    using links by (auto simp: case_prod_unfold)
  have names: "map u_name ?nu = map (\<lambda>m. field m ''name'') ms"
  proof -
    have "map u_name ?nu = map (\<lambda>(i, u). uo_name u) (enumerate ?uid (map snd ?cons))"
      by (simp add: case_prod_unfold)
    also have "\<dots> = map uo_name (map snd ?cons)" by (rule vals_enumerate)
    finally show ?thesis using constructed_fields [OF fields, of 0 "Suc 0"] by simp
  qed
  have emails: "map u_email ?nu = map (\<lambda>m. field m ''email'') ms"
  proof -
    have "map u_email ?nu = map (\<lambda>(i, u). uo_email u) (enumerate ?uid (map snd ?cons))"
      by (simp add: case_prod_unfold)
    also have "\<dots> = map uo_email (map snd ?cons)" by (rule vals_enumerate)
    finally show ?thesis using constructed_fields [OF fields, of 0 "Suc 0"] by simp
  qed
  have t_ids: "map t_id (teams_tbl d @ ?nt) = map t_id (teams_tbl d) @ [?tid..<?tid + 1]"
    by simp
  have c_ids: "map c_id (companies_tbl d @ ?nc) =
      map c_id (companies_tbl d) @ [?cid..<?cid + length (map fst ?cons)]"
    by (simp add: case_prod_unfold comp_def)
  have u_ids: "map u_id (users_tbl d @ ?nu) =
      map u_id (users_tbl d) @ [?uid..<?uid + length (map snd ?cons)]"
    by (simp add: case_prod_unfold comp_def)
  from ok have dist: "distinct (map t_id (teams_tbl d))" "distinct (map c_id (companies_tbl d))"
    "distinct (map u_id (users_tbl d))" by (simp_all add: store_ok_def)
  have dt: "distinct (map t_id (teams_tbl d @ ?nt))"
    by (simp only: t_ids distinct_fresh_ids [OF dist(1)])
  have dc: "distinct (map c_id (companies_tbl d @ ?nc))"
    by (simp only: c_ids distinct_fresh_ids [OF dist(2)])
  have du: "distinct (map u_id (users_tbl d @ ?nu))"
    by (simp only: u_ids distinct_fresh_ids [OF dist(3)])
  have fk: "\<forall>r \<in> set ?nu.
        (\<exists>tid. u_team_id r = Some tid \<and> tid \<in> set (map t_id (teams_tbl d @ ?nt))) \<and>
        (\<exists>cid. u_company_id r = Some cid \<and> cid \<in> set (map c_id (companies_tbl d @ ?nc)))"
  proof
    fix r assume r: "r \<in> set ?nu"
    then obtain p where p: "p \<in> set (enumerate ?uid (map snd ?cons))" "r = ?row p" by auto
    from r team_fk have 1: "u_team_id r = Some ?tid" by blast
    from links [OF p(1)] have "uo_company (snd p) \<in> set (map co_ref (map fst ?cons))" by simp
    from company_key_found [OF this, of ?cid] obtain cid where
      cid: "?key (uo_company (snd p)) = Some cid"
        "cid \<in> set [?cid..<?cid + length (map fst ?cons)]" by blast
    from p(2) cid(1) have 2: "u_company_id r = Some cid" by (simp add: case_prod_unfold)
    from cid(2) have 3: "cid \<in> set (map c_id (companies_tbl d @ ?nc))"
      by (simp only: c_ids set_append) blast
    have 4: "?tid \<in> set (map t_id (teams_tbl d @ ?nt))" by simp
    from 1 2 3 4 show "(\<exists>tid. u_team_id r = Some tid \<and> tid \<in> set (map t_id (teams_tbl d @ ?nt))) \<and>
        (\<exists>cid. u_company_id r = Some cid \<and> cid \<in> set (map c_id (companies_tbl d @ ?nc)))"
      by blast
  qed
  have ok': "store_ok ?d'" by (rule store_ok_extend [OF ok dt dc du fk])
  have sel: "teams_tbl ?d' = teams_tbl d @ ?nt" "users_tbl ?d' = users_tbl d @ ?nu" by simp_all
  from run sel team_fk names emails ok' show ?thesis by blast
qed

text \<open>
  Claim C3. Let the store satisfy the invariants of the data model and the document
  follow the input contract (a name that is a string, a list of members whose name,
  email and company are strings). Then the route \<^verbatim>\<open>add_team\<close> succeeds and, in
  the store after its commit, \<^verbatim>\<open>get_team_by_name\<close> of the document's name returns
  a team whose members have the names and the emails of the document's members, in the
  same order; and the store satisfies the invariants again.
\<close>

theorem ingested_team_found_by_name:
  assumes "store_ok d"
    and "map_of items ''name'' = Some (JString n)"
    and "map_of items ''members'' = Some (JList ms)"
    and "list_all member_ok ms"
  shows "\<exists>d' t. add_team (JDict items) d = (Inr ''Added Team'', d') \<and>
           t \<in> set (get_team_by_name d' n) \<and>
           map u_name (members d' t) = map (\<lambda>m. field m ''name'') ms \<and>
           map u_email (members d' t) = map (\<lambda>m. field m ''email'') ms \<and>
           store_ok d'"
proof -
  let ?tid = "fresh_id (map t_id (teams_tbl d))"
  let ?t = "\<lparr>t_id = ?tid, t_name = JString n\<rparr>"
  from add_team_store [OF assms(1-3) member_ok_fields [OF assms(4)]]
  obtain d' nu where
    run: "add_team (JDict items) d = (Inr ''Added Team'', d')" and
    teams: "teams_tbl d' = teams_tbl d @ [?t]" and
    users: "users_tbl d' = users_tbl d @ nu" and
    fk: "\<forall>r \<in> set nu. u_team_id r = Some ?tid" and
    names: "map u_name nu = map (\<lambda>m. field m ''name'') ms" and
    emails: "map u_email nu = map (\<lambda>m. field m ''email'') ms" and
    ok': "store_ok d'"
    by blast
  have found: "?t \<in> set (get_team_by_name d' n)"
    by (simp add: get_team_by_name_def teams)
  have old: "filter (\<lambda>u. u_team_id u = Some ?tid) (users_tbl d) = []"
  proof -
    have "\<forall>u \<in> set (users_tbl d). u_team_id u \<noteq> Some ?tid"
    proof
      fix u assume "u \<in> set (users_tbl d)"
      from store_ok_team_key [OF assms(1) this] obtain tid where
        tid: "u_team_id u = Some tid" "tid \<in> set (map t_id (teams_tbl d))" by blast
      from fresh_id_greater [OF tid(2)] tid(1) show "u_team_id u \<noteq> Some ?tid" by simp
    qed
    then show ?thesis by (simp add: filter_empty_conv)
  qed
  have new: "filter (\<lambda>u. u_team_id u = Some ?tid) nu = nu"
    using fk by (simp add: filter_id_conv)
  have "members d' ?t = nu"
    by (simp add: members_def users old new)
  with run found names emails ok' show ?thesis by blast
qed

lemma nwa_members_ok:
  "list_all member_ok
     [JDict [(''name'', JString ''Ice Cube''), (''email'', JString ''icecube@gmail.com''),
             (''company'', JString ''Ruthless_Records'')],
      JDict [(''name'', JString ''MC Ren''), (''email'', JString ''ren@hotmail.com''),
             (''company'', JString ''Ruthless_Records'')]]"
  by (simp add: member_ok_def member_fields_def)

lemma add_team_nwa_example:
  "add_team nwa_document example_store =
    (Inr ''Added Team'',
     \<lparr>teams_tbl =
        [\<lparr>t_id = 1, t_name = JString ''NWA''\<rparr>, \<lparr>t_id = 2, t_name = JString ''GFUNK''\<rparr>,
         \<lparr>t_id = 3, t_name = JString ''NWA''\<rparr>],
      users_tbl =
        [\<lparr>u_id = 1, u_name = JString ''Ice Cube'', u_email = JString ''icecube@gmail.com'',
          u_team_id = Some 1, u_company_id = Some 1\<rparr>,
         \<lparr>u_id = 2, u_name = JString ''MC Ren'', u_email = JString ''ren@hotmail.com'',
          u_team_id = Some 1, u_company_id = Some 1\<rparr>,
         \<lparr>u_id = 3, u_name = JString ''Warren G'', u_email = JString ''warren@gmail.com'',
          u_team_id = Some 2, u_company_id = Some 2\<rparr>,
         \<lparr>u_id = 4, u_name = JString ''Nate Dogg'', u_email = JString ''nate@gmail.com'',
          u_team_id = Some 2, u_company_id = Some 2\<rparr>,
         \<lparr>u_id = 5, u_name = JString ''Ice Cube'', u_email = JString ''icecube@gmail.com'',
          u_team_id = Some 3, u_company_id = Some 3\<rparr>,
         \<lparr>u_id = 6, u_name = JString ''MC Ren'', u_email = JString ''ren@hotmail.com'',
          u_team_id = Some 3, u_company_id = Some 4\<rparr>],
      companies_tbl =
        [\<lparr>c_id = 1, c_name = JString ''Ruthless_Records''\<rparr>,
         \<lparr>c_id = 2, c_name = JString ''Def_Jam_Records''\<rparr>,
         \<lparr>c_id = 3, c_name = JString ''Ruthless_Records''\<rparr>,
         \<lparr>c_id = 4, c_name = JString ''Ruthless_Records''\<rparr>]\<rparr>)"
  by (simp add: add_team_def ingest_simps commit_def fresh_id_def example_store_def)

theorem ingested_team_found_by_name_witness:
  "store_ok example_store \<and>
   get_team_by_name (snd (add_team nwa_document example_store)) ''NWA'' =
     [\<lparr>t_id = 1, t_name = JString ''NWA''\<rparr>, \<lparr>t_id = 3, t_name = JString ''NWA''\<rparr>] \<and>
   map u_name (members (snd (add_team nwa_document example_store))
                 \<lparr>t_id = 3, t_name = JString ''NWA''\<rparr>) =
     [JString ''Ice Cube'', JString ''MC Ren''] \<and>
   (\<exists>d' t. add_team nwa_document example_store = (Inr ''Added Team'', d') \<and>
           t \<in> set (get_team_by_name d' ''NWA'') \<and>
           map u_name (members d' t) = [JString ''Ice Cube'', JString ''MC Ren''] \<and>
           map u_email (members d' t) =
             [JString ''icecube@gmail.com'', JString ''ren@hotmail.com''] \<and>
           store_ok d')"
proof -
  have a: "get_team_by_name (snd (add_team nwa_document example_store)) ''NWA'' =
     [\<lparr>t_id = 1, t_name = JString ''NWA''\<rparr>, \<lparr>t_id = 3, t_name = JString ''NWA''\<rparr>]"
    by (simp add: add_team_nwa_example get_team_by_name_def)
  have b: "map u_name (members (snd (add_team nwa_document example_store))
                 \<lparr>t_id = 3, t_name = JString ''NWA''\<rparr>) =
     [JString ''Ice Cube'', JString ''MC Ren'']"
    by (simp add: add_team_nwa_example members_def)
  from ingested_team_found_by_name [where d = example_store and n = "''NWA''" and items =
      "[(''name'', JString ''NWA''),
        (''members'', JList
           [JDict [(''name'', JString ''Ice Cube''), (''email'', JString ''icecube@gmail.com''),
                   (''company'', JString ''Ruthless_Records'')],
            JDict [(''name'', JString ''MC Ren''), (''email'', JString ''ren@hotmail.com''),
                   (''company'', JString ''Ruthless_Records'')]])]",
      OF example_store_ok _ _ nwa_members_ok]
  have c: "\<exists>d' t. add_team nwa_document example_store = (Inr ''Added Team'', d') \<and>
           t \<in> set (get_team_by_name d' ''NWA'') \<and>
           map u_name (members d' t) = [JString ''Ice Cube'', JString ''MC Ren''] \<and>
           map u_email (members d' t) =
             [JString ''icecube@gmail.com'', JString ''ren@hotmail.com''] \<and>
           store_ok d'"
    by (simp add: nwa_document_def field_def)
  from a b c example_store_ok show ?thesis by blast
qed

subsection \<open>The invariants hold in every reachable store\<close>

lemma store_ok_empty: "store_ok empty_store"
  by (simp add: store_ok_def empty_store_def)

lemma add_members_ok_fields:
  "fst (add_members team ms cs us n) = Inr u \<Longrightarrow> list_all (\<lambda>m. member_fields m \<noteq> None) ms"
proof (induction ms arbitrary: cs us n)
  case Nil
  then show ?case by simp
next
  case (Cons m ms)
  from Cons.prems obtain cname uname uemail where
    sub: "subscript m ''company'' = Inr cname" "subscript m ''name'' = Inr uname"
      "subscript m ''email'' = Inr uemail"
    by (auto simp: Let_def split: sum.splits)
  with Cons.prems Cons.IH show ?case
    by (auto simp: Let_def member_fields_def)
qed

lemma subscript_ok: "subscript v k = Inr x \<Longrightarrow> \<exists>items. v = JDict items \<and> map_of items k = Some x"
  by (cases v) (auto split: option.splits)

lemma add_post_json_ok_shape:
  assumes "fst (add_post_json json_data s) = Inr u"
  shows "\<exists>items tname mv ms. json_data = JDict items \<and> map_of items ''name'' = Some tname \<and>
           map_of items ''members'' = Some mv \<and> iterate mv = Inr ms \<and>
           list_all (\<lambda>m. member_fields m \<noteq> None) ms"
proof -
  from assms obtain tname where n: "subscript json_data ''name'' = Inr tname"
    by (auto simp: add_post_json_def split: sum.splits)
  from assms n obtain mv where m: "subscript json_data ''members'' = Inr mv"
    by (auto simp: add_post_json_def Let_def split: sum.splits)
  from assms n m obtain ms where i: "iterate mv = Inr ms"
    by (auto simp: add_post_json_def Let_def split: sum.splits)
  from assms n m i
  have "fst (add_members (next_ref s) ms [] [] (Suc (next_ref s))) = Inr ()"
    by (auto simp: add_post_json_def Let_def split: sum.splits prod.splits)
  then have f: "list_all (\<lambda>m. member_fields m \<noteq> None) ms" by (rule add_members_ok_fields)
  from subscript_ok [OF n] obtain items where
    items: "json_data = JDict items" "map_of items ''name'' = Some tname" by blast
  with m have "map_of items ''members'' = Some mv" by (auto split: option.splits)
  with items i f show ?thesis by blast
qed

lemma add_post_json_iterate:
  assumes "map_of items ''members'' = Some mv" and "iterate mv = Inr ms"
  shows "add_post_json (JDict items) s = add_post_json (JDict ((''members'', JList ms) # items)) s"
  using assms by (cases "map_of items ''name''") (simp_all add: add_post_json_def Let_def)

text \<open>
  The invariants of the data model hold in the empty store and are kept by the route
  \<^verbatim>\<open>add_team\<close>, whatever is posted: they hold in every store the service reaches.
\<close>

lemma add_team_preserves_store_ok:
  assumes "store_ok d"
  shows "store_ok (snd (add_team json_data d))"
proof (cases "fst (add_post_json json_data (new_session d))")
  case (Inl e)
  then have "add_team json_data d = (Inl e, d)"
    by (cases "add_post_json json_data (new_session d)") (simp add: add_team_def)
  with assms show ?thesis by simp
next
  case (Inr u)
  from add_post_json_ok_shape [OF this] obtain items tname mv ms where
    shape: "json_data = JDict items" "map_of items ''name'' = Some tname"
      "map_of items ''members'' = Some mv" "iterate mv = Inr ms"
      "list_all (\<lambda>m. member_fields m \<noteq> None) ms" by blast
  let ?items = "(''members'', JList ms) # items"
  have same: "add_team json_data d = add_team (JDict ?items) d"
    using add_post_json_iterate [OF shape(3,4), of "new_session d"] shape(1)
    by (simp add: add_team_def)
  have "map_of ?items ''name'' = Some tname" "map_of ?items ''members'' = Some (JList ms)"
    using shape(2) by simp_all
  from add_team_store [OF assms this shape(5)] same show ?thesis by auto
qed

end
